theory Spec2Isabelle
  imports Complex_Main "HOL-Library.AList"
begin

section \<open>JavaScript values\<close>

text \<open>
  The resource model of \<^verbatim>\<open>src/Libs/Resources/OgResource.js\<close> works on values of unknown
  runtime shape, so the embedding starts from a datatype of JavaScript values.

  Scope of the value model:
  \<^item> numbers are \<open>NaN\<close>, the two infinities and exact rationals; the rounding of IEEE
    doubles and the negative zero are not represented, and numbers print in positional
    notation (no exponent form);
  \<^item> strings are byte strings; white space is the ASCII white space;
  \<^item> an object is its kind (a plain object, an instance of a resource type, an instance
    of a custom cast type) and its own properties in insertion order; arrays, functions and
    members inherited from a prototype (\<^verbatim>\<open>constructor\<close>, \<^verbatim>\<open>__proto__\<close>, the methods of a
    class) are not represented, so property names are taken not to collide with them;
  \<^item> a dot-path is split at every dot; the bracket syntax of lodash paths is not
    represented.
\<close>

datatype jsnum = NaN | PosInf | NegInf | Fin rat

datatype error = Error string | TypeError string | SyntaxError string | RangeError string

text \<open>
  Collaborator objects (the transport \<^verbatim>\<open>OgApi\<close> and the configuration store) are mutable
  and shared, so they live in a store and are held by reference. A handle is what a
  variable holding such a collaborator can contain.
\<close>

type_synonym ref = nat

datatype handle = HUndefined | HRef ref

text \<open>
  Type descriptors of \<^verbatim>\<open>cast(path, type)\<close>: a string (\<^verbatim>\<open>'boolean'\<close>, \<^verbatim>\<open>'string'\<close>,
  \<^verbatim>\<open>'integer'\<close>, \<^verbatim>\<open>'decimal'\<close>, or any other string; the empty string stands for every
  falsy descriptor), a subtype of \<^verbatim>\<open>OgResource\<close>, or a subtype of \<^verbatim>\<open>OgResourceCast\<close>.
\<close>

text \<open>
  Modelled from the spec: the subtypes of \<^verbatim>\<open>OgResource\<close> are not under src/. A subtype
  is described by the endpoint path it passes to the base constructor and the casts it
  declares (``its shape (casts/fillable) is fixed at construction/definition time by the
  owning subtype''). Descriptors are finite trees: a subtype that nests itself is not
  represented.
\<close>

datatype cast_type =
    TName string
  | TResource string "(string \<times> cast_type) list"
  | TCast string

record status =
  updating :: bool
  fetching :: bool
  creating :: bool
  deleting :: bool

text \<open>
  Modelled from the spec: \<^verbatim>\<open>OgResponse\<close> (the Response Wrapper) is not under src/. It
  ``exposes \<^verbatim>\<open>failed\<close> (boolean), \<^verbatim>\<open>message\<close>, \<^verbatim>\<open>status\<close> derived from the last Transport
  result''.
\<close>

record og_response =
  failed :: bool
  message :: string
  code :: nat

datatype jsval =
    JUndefined
  | JNull
  | JBool bool
  | JNum jsnum
  | JStr string
  | JObj kind "(string \<times> jsval) list"
and kind =
    Plain
  | ResInst resource
  | CastInst string handle jsval
and resource =
    Resource (r_api: handle) (r_response: response) (r_fillable: "string list")
      (r_casts: "(string \<times> cast_type) list") (r_attributes: jsval)
      (r_primaryKey: string) (r_status: status) (r_path: string)
and response =
    Wrapper og_response
  | Payload jsval

text \<open>
  \<open>r_response\<close> is a sum because \<^verbatim>\<open>save()\<close> assigns the value returned by
  \<^verbatim>\<open>this.$api.post\<close> (a payload) to the field that the constructor fills with a wrapper.
\<close>

definition set_response :: "response \<Rightarrow> resource \<Rightarrow> resource" where
  "set_response x r =
     Resource (r_api r) x (r_fillable r) (r_casts r) (r_attributes r)
       (r_primaryKey r) (r_status r) (r_path r)"

definition set_fillable :: "string list \<Rightarrow> resource \<Rightarrow> resource" where
  "set_fillable x r =
     Resource (r_api r) (r_response r) x (r_casts r) (r_attributes r)
       (r_primaryKey r) (r_status r) (r_path r)"

definition set_casts :: "(string \<times> cast_type) list \<Rightarrow> resource \<Rightarrow> resource" where
  "set_casts x r =
     Resource (r_api r) (r_response r) (r_fillable r) x (r_attributes r)
       (r_primaryKey r) (r_status r) (r_path r)"

definition set_attributes :: "jsval \<Rightarrow> resource \<Rightarrow> resource" where
  "set_attributes x r =
     Resource (r_api r) (r_response r) (r_fillable r) (r_casts r) x
       (r_primaryKey r) (r_status r) (r_path r)"

definition set_status :: "status \<Rightarrow> resource \<Rightarrow> resource" where
  "set_status x r =
     Resource (r_api r) (r_response r) (r_fillable r) (r_casts r) (r_attributes r)
       (r_primaryKey r) x (r_path r)"

subsection \<open>Truthiness and conversions\<close>

definition truthy :: "jsval \<Rightarrow> bool" where
  "truthy v =
     (case v of
        JUndefined \<Rightarrow> False
      | JNull \<Rightarrow> False
      | JBool b \<Rightarrow> b
      | JNum n \<Rightarrow> (case n of NaN \<Rightarrow> False | Fin q \<Rightarrow> q \<noteq> 0 | _ \<Rightarrow> True)
      | JStr s \<Rightarrow> s \<noteq> []
      | JObj k ps \<Rightarrow> True)"

definition nullish :: "jsval \<Rightarrow> bool" where
  "nullish v = (v = JUndefined \<or> v = JNull)"

definition isObject :: "jsval \<Rightarrow> bool" where
  "isObject v = (case v of JObj k ps \<Rightarrow> True | _ \<Rightarrow> False)"

definition digit_char :: "nat \<Rightarrow> char" where
  "digit_char n = ''0123456789'' ! (n mod 10)"

definition is_digit :: "char \<Rightarrow> bool" where
  "is_digit c = (c \<in> set ''0123456789'')"

definition digit_val :: "char \<Rightarrow> nat" where
  "digit_val c = length (takeWhile (\<lambda>d. d \<noteq> c) ''0123456789'')"

fun digits_of_nat :: "nat \<Rightarrow> string" where
  "digits_of_nat n =
     (if n < 10 then [digit_char n] else digits_of_nat (n div 10) @ [digit_char n])"

fun nat_of_digits :: "nat \<Rightarrow> string \<Rightarrow> nat" where
  "nat_of_digits acc [] = acc"
| "nat_of_digits acc (c # cs) = nat_of_digits (10 * acc + digit_val c) cs"

fun frac_digits :: "nat \<Rightarrow> nat \<Rightarrow> nat \<Rightarrow> string" where
  "frac_digits 0 num den = []"
| "frac_digits (Suc k) num den =
     (if num = 0 then []
      else digit_char ((10 * num) div den) # frac_digits k ((10 * num) mod den) den)"

definition rat_to_string :: "rat \<Rightarrow> string" where
  "rat_to_string q =
     (let (a, b) = quotient_of q;
          n = nat \<bar>a\<bar>;
          d = nat b;
          whole = digits_of_nat (n div d);
          frac = frac_digits 20 (n mod d) d
      in (if a < 0 then ''-'' else []) @ whole @ (if frac = [] then [] else ''.'' @ frac))"

definition num_to_string :: "jsnum \<Rightarrow> string" where
  "num_to_string n =
     (case n of
        NaN \<Rightarrow> ''NaN''
      | PosInf \<Rightarrow> ''Infinity''
      | NegInf \<Rightarrow> ''-Infinity''
      | Fin q \<Rightarrow> rat_to_string q)"

text \<open>\<^verbatim>\<open>String(value)\<close>, the abstract operation ToString.\<close>

definition to_string :: "jsval \<Rightarrow> string" where
  "to_string v =
     (case v of
        JUndefined \<Rightarrow> ''undefined''
      | JNull \<Rightarrow> ''null''
      | JBool b \<Rightarrow> (if b then ''true'' else ''false'')
      | JNum n \<Rightarrow> num_to_string n
      | JStr s \<Rightarrow> s
      | JObj k ps \<Rightarrow> ''[object Object]'')"

definition is_space :: "char \<Rightarrow> bool" where
  "is_space c = (c \<in> set [CHR '' '', CHR 0x09, CHR 0x0A, CHR 0x0B, CHR 0x0C, CHR 0x0D])"

text \<open>
  \<^verbatim>\<open>parseInt(value, 10)\<close>: the argument is converted to a string, leading white space
  is dropped, a sign is read, and the longest prefix of decimal digits is the result;
  \<open>NaN\<close> when that prefix is empty. Whatever follows the digits is ignored.
\<close>

definition parseInt :: "jsval \<Rightarrow> jsnum" where
  "parseInt v =
     (let s = dropWhile is_space (to_string v);
          neg = (s \<noteq> [] \<and> hd s = CHR ''-'');
          s' = (if s \<noteq> [] \<and> (hd s = CHR ''-'' \<or> hd s = CHR ''+'') then tl s else s);
          z = takeWhile is_digit s'
      in if z = [] then NaN
         else Fin (if neg then - of_nat (nat_of_digits 0 z) else of_nat (nat_of_digits 0 z)))"

text \<open>
  \<^verbatim>\<open>parseFloat(value)\<close>: the longest prefix that is a decimal literal (sign,
  \<^verbatim>\<open>Infinity\<close> or digits with an optional fraction and an optional exponent).
\<close>

definition exponent_part :: "string \<Rightarrow> int" where
  "exponent_part s =
     (if s \<noteq> [] \<and> (hd s = CHR ''e'' \<or> hd s = CHR ''E'') then
        (let t = tl s;
             neg = (t \<noteq> [] \<and> hd t = CHR ''-'');
             t' = (if t \<noteq> [] \<and> (hd t = CHR ''-'' \<or> hd t = CHR ''+'') then tl t else t);
             z = takeWhile is_digit t'
         in if z = [] then 0
            else if neg then - int (nat_of_digits 0 z) else int (nat_of_digits 0 z))
      else 0)"

definition parseFloat :: "jsval \<Rightarrow> jsnum" where
  "parseFloat v =
     (let s = dropWhile is_space (to_string v);
          neg = (s \<noteq> [] \<and> hd s = CHR ''-'');
          s' = (if s \<noteq> [] \<and> (hd s = CHR ''-'' \<or> hd s = CHR ''+'') then tl s else s)
      in if take 8 s' = ''Infinity'' then (if neg then NegInf else PosInf)
         else
           (let whole = takeWhile is_digit s';
                r1 = dropWhile is_digit s';
                frac = (if r1 \<noteq> [] \<and> hd r1 = CHR ''.'' then takeWhile is_digit (tl r1) else []);
                r2 = (if r1 \<noteq> [] \<and> hd r1 = CHR ''.'' then dropWhile is_digit (tl r1) else r1);
                e = exponent_part r2;
                m = (of_nat (nat_of_digits 0 (whole @ frac)) :: rat) / 10 ^ length frac;
                q = (if 0 \<le> e then m * 10 ^ nat e else m / 10 ^ nat (- e))
            in if whole = [] \<and> frac = [] then NaN
               else Fin (if neg then - q else q)))"

section \<open>Objects and dot-paths\<close>

text \<open>
  \<^verbatim>\<open>object[key]\<close> on an own property; reading a key that is absent, or reading from a
  primitive, gives \<open>undefined\<close>.
\<close>

definition own_prop :: "jsval \<Rightarrow> string \<Rightarrow> jsval" where
  "own_prop v key =
     (case v of
        JObj k ps \<Rightarrow> (case map_of ps key of Some x \<Rightarrow> x | None \<Rightarrow> JUndefined)
      | _ \<Rightarrow> JUndefined)"

text \<open>\<^verbatim>\<open>key in Object(object)\<close>, the test lodash uses to take a dotted string as one key.\<close>

definition has_key :: "jsval \<Rightarrow> string \<Rightarrow> bool" where
  "has_key v key = (case v of JObj k ps \<Rightarrow> key \<in> fst ` set ps | _ \<Rightarrow> False)"

fun split_dots :: "string \<Rightarrow> string list" where
  "split_dots [] = [[]]"
| "split_dots (c # cs) =
     (if c = CHR ''.'' then [] # split_dots cs
      else (case split_dots cs of [] \<Rightarrow> [[c]] | w # ws \<Rightarrow> (c # w) # ws))"

definition castPath :: "string \<Rightarrow> jsval \<Rightarrow> string list" where
  "castPath p obj = (if has_key obj p then [p] else split_dots p)"

text \<open>
  lodash \<^verbatim>\<open>get(object, path, defaultValue)\<close>: walk the keys while the current value is
  not null or undefined; the default replaces an \<open>undefined\<close> result.
\<close>

fun baseGet :: "jsval \<Rightarrow> string list \<Rightarrow> jsval" where
  "baseGet obj [] = obj"
| "baseGet obj (k # ks) = (if nullish obj then JUndefined else baseGet (own_prop obj k) ks)"

definition lodash_get :: "jsval \<Rightarrow> string \<Rightarrow> jsval \<Rightarrow> jsval" where
  "lodash_get obj p d =
     (let result = (if nullish obj then JUndefined else baseGet obj (castPath p obj))
      in if result = JUndefined then d else result)"

text \<open>
  lodash \<^verbatim>\<open>set(object, path, value)\<close>: a value on the way that is not an object is
  replaced by an empty object; an existing key keeps its position, a new key is appended.
  The source mutates in place; the model returns the new object.
\<close>

definition assignValue :: "jsval \<Rightarrow> string \<Rightarrow> jsval \<Rightarrow> jsval" where
  "assignValue obj key v =
     (case obj of JObj k ps \<Rightarrow> JObj k (AList.update key v ps) | _ \<Rightarrow> obj)"

fun baseSet :: "jsval \<Rightarrow> string list \<Rightarrow> jsval \<Rightarrow> jsval" where
  "baseSet obj [] v = obj"
| "baseSet obj [k] v = assignValue obj k v"
| "baseSet obj (k # k' # ks) v =
     (let objValue = own_prop obj k;
          newValue = (if isObject objValue then objValue else JObj Plain [])
      in assignValue obj k (baseSet newValue (k' # ks) v))"

definition lodash_set :: "jsval \<Rightarrow> string \<Rightarrow> jsval \<Rightarrow> jsval" where
  "lodash_set obj p v = (if isObject obj then baseSet obj (castPath p obj) v else obj)"

text \<open>
  \<^verbatim>\<open>Object.keys\<close>: the keys that are array indices come first, in ascending order, the
  others follow in insertion order.
\<close>

definition is_index :: "string \<Rightarrow> bool" where
  "is_index s =
     (s \<noteq> [] \<and> list_all is_digit s \<and> (s = ''0'' \<or> hd s \<noteq> CHR ''0'')
      \<and> nat_of_digits 0 s < 4294967295)"

definition object_keys :: "string list \<Rightarrow> string list" where
  "object_keys ks =
     sort_key (nat_of_digits 0) (filter is_index ks) @ filter (\<lambda>k. \<not> is_index k) ks"

section \<open>Collaborators\<close>

text \<open>
  \<^verbatim>\<open>src/Libs/Http/OgApi.js\<close>: the transport holds its configuration, its headers and the
  normalized result of the last request. The configuration store (\<^verbatim>\<open>OgConfig\<close>) is not
  under src/: the store keeps, for a configuration object, the values of its members
  \<^verbatim>\<open>config\<close> and \<^verbatim>\<open>api\<close> (\<open>HUndefined\<close> for a member it does not have), which is all
  the resource model reads of it directly. \<^verbatim>\<open>src/Sdk/Bootstrap.js\<close> declares the getter
  \<^verbatim>\<open>api\<close> on the configuration it builds and sets it to \<^verbatim>\<open>new OgApi(this)\<close>: the
  transport of a configuration and the configuration of that transport refer to each
  other.
\<close>

record api_response =
  resp_ok :: bool
  resp_message :: string
  resp_status :: nat
  resp_data :: jsval

record og_api =
  api_config :: handle
  api_headers :: "(string \<times> string) list"
  api_response :: api_response

datatype hobj = ApiObj og_api | ConfigObj (cfg_config: handle) (cfg_api: handle)

type_synonym store = "ref \<Rightarrow> hobj option"

text \<open>
  The expression \<^verbatim>\<open>x.config\<close>: the getter of a transport, the member of a configuration
  object. It throws when \<^verbatim>\<open>x\<close> is undefined; a reference that the store does not hold
  reads as an object without the member.
\<close>

definition get_config :: "store \<Rightarrow> handle \<Rightarrow> error + handle" where
  "get_config st h =
     (case h of
        HUndefined \<Rightarrow> Inl (TypeError ''Cannot read properties of undefined'')
      | HRef a \<Rightarrow>
          (case st a of
             Some (ApiObj x) \<Rightarrow> Inr (api_config x)
           | Some (ConfigObj c x) \<Rightarrow> Inr c
           | None \<Rightarrow> Inr HUndefined))"

text \<open>
  The expression \<^verbatim>\<open>x.api\<close>: the member of a configuration object; a transport has no
  such member.
\<close>

definition get_api :: "store \<Rightarrow> handle \<Rightarrow> error + handle" where
  "get_api st h =
     (case h of
        HUndefined \<Rightarrow> Inl (TypeError ''Cannot read properties of undefined'')
      | HRef a \<Rightarrow>
          (case st a of
             Some (ConfigObj c x) \<Rightarrow> Inr x
           | Some (ApiObj x) \<Rightarrow> Inr HUndefined
           | None \<Rightarrow> Inr HUndefined))"

section \<open>The resource model\<close>

text \<open>
  A method that mutates the resource returns how it completed together with the state it
  leaves: a throw keeps the mutations made before it.
\<close>

datatype completion = Normal | Throw error

text \<open>
  Modelled from the spec: the constructor of \<^verbatim>\<open>OgResponse\<close> is not under src/; a new
  wrapper mirrors the initial transport result of \<^verbatim>\<open>OgApi\<close> (no failure, empty message,
  status 200).
\<close>

definition OgResponse_new :: og_response where
  "OgResponse_new = \<lparr>failed = False, message = [], code = 200\<rparr>"

definition status_idle :: status where
  "status_idle = \<lparr>updating = False, fetching = False, creating = False, deleting = False\<rparr>"

definition fillable :: "resource \<Rightarrow> string \<Rightarrow> resource" where
  "fillable r p = set_fillable (r_fillable r @ [p]) r"

definition cast :: "resource \<Rightarrow> string \<Rightarrow> cast_type \<Rightarrow> resource" where
  "cast r p t = fillable (set_casts (AList.update p t (r_casts r)) r) p"

text \<open>
  What lodash \<^verbatim>\<open>get\<close> finds inside an object is smaller than the object: the fact that
  ends the recursion of the casting engine below.
\<close>

lemma size_member:
  "map_of ps k = Some (v :: jsval) \<Longrightarrow> size v < Suc (size_list (size_prod (\<lambda>x. 0) size) ps)"
  by (induction ps) (auto split: if_splits)

lemma size_own_prop: "own_prop obj k \<noteq> JUndefined \<Longrightarrow> size (own_prop obj k) < size obj"
proof (cases obj)
  case (JObj kd ps)
  assume "own_prop obj k \<noteq> JUndefined"
  then obtain v where m: "map_of ps k = Some v" and o: "own_prop obj k = v"
    by (auto simp: own_prop_def JObj split: option.splits)
  from m have "size v < Suc (size_list (size_prod (\<lambda>x. 0) size) ps)" by (rule size_member)
  then show ?thesis using o by (simp add: JObj)
qed (simp_all add: own_prop_def)

lemma size_baseGet: "baseGet obj ks \<noteq> JUndefined \<Longrightarrow> size (baseGet obj ks) \<le> size obj"
proof (induction ks arbitrary: obj)
  case Nil
  then show ?case by simp
next
  case (Cons k ks)
  from Cons.prems have n: "baseGet (own_prop obj k) ks \<noteq> JUndefined"
    by (simp split: if_splits)
  then have "size (baseGet (own_prop obj k) ks) \<le> size (own_prop obj k)" by (rule Cons.IH)
  moreover have "own_prop obj k \<noteq> JUndefined"
    using n by (cases ks) (auto simp: nullish_def)
  then have "size (own_prop obj k) < size obj" by (rule size_own_prop)
  ultimately show ?case using Cons.prems by (simp split: if_splits)
qed

lemma size_lodash_get:
  assumes "truthy (lodash_get obj p JNull)"
  shows "size (lodash_get obj p JNull) < size obj"
proof -
  have "split_dots p \<noteq> []" by (induction p) (auto split: list.splits)
  then obtain k ks where c: "castPath p obj = k # ks"
    by (cases "castPath p obj") (auto simp: castPath_def split: if_splits)
  from assms have r: "lodash_get obj p JNull = baseGet obj (k # ks)"
    and n: "baseGet obj (k # ks) \<noteq> JUndefined"
    by (auto simp: lodash_get_def Let_def c truthy_def split: if_splits)
  from n have m: "baseGet (own_prop obj k) ks \<noteq> JUndefined" by (simp split: if_splits)
  then have "size (baseGet (own_prop obj k) ks) \<le> size (own_prop obj k)" by (rule size_baseGet)
  moreover have "own_prop obj k \<noteq> JUndefined"
    using m by (cases ks) (auto simp: nullish_def)
  then have "size (own_prop obj k) < size obj" by (rule size_own_prop)
  ultimately show ?thesis using r n by (simp split: if_splits)
qed

text \<open>
  The casting engine \<^verbatim>\<open>getCastValue\<close>, the construction \<^verbatim>\<open>new type(config, value)\<close>,
  the base constructor and \<^verbatim>\<open>fill\<close>/\<^verbatim>\<open>set\<close> call each other: a nested-resource cast
  constructs an instance, the instance is filled with the input, \<^verbatim>\<open>fill\<close> calls
  \<^verbatim>\<open>set\<close> with a value that it has read inside the input, and \<^verbatim>\<open>set\<close> casts that
  value. The recursion ends because the value gets smaller at each round, and in the base
  constructor because it fills while \<^verbatim>\<open>$fillable\<close> is the empty array.
\<close>

text \<open>
  Modelled from the spec: the constructors of the subtypes of \<^verbatim>\<open>OgResource\<close> and of
  \<^verbatim>\<open>OgResourceCast\<close> are not under src/. For a nested-resource type the spec gives
  ``construct a new instance of that type, bound to the same config/transport context,
  initialized by filling it with the raw input (if an input is absent, construct with an
  empty/default input so the schema can still be derived)''. The casting engine hands the
  constructor the configuration and the input, so a resource subtype \<open>TResource p cs\<close>
  takes the transport of that configuration (\<^verbatim>\<open>config.api\<close>), calls the base constructor
  with it, the input and its endpoint path \<open>p\<close>, declares \<^verbatim>\<open>cast(path, type)\<close> for each
  entry of \<open>cs\<close>, and fills itself with the input. The instance of a custom cast type is
  kept opaque with the arguments it was constructed from. The constructor of the base
  class \<^verbatim>\<open>OgQueryBuilder\<close> (not under src/) receives \<^verbatim>\<open>api.config\<close> and is taken to
  leave the fields of the resource alone.
\<close>

function getCastValue :: "store \<Rightarrow> handle \<Rightarrow> string \<Rightarrow> (string \<times> cast_type) list \<Rightarrow> jsval \<Rightarrow> error + jsval"
  and new_instance :: "store \<Rightarrow> cast_type \<Rightarrow> handle \<Rightarrow> jsval \<Rightarrow> error + jsval"
  and OgResource_new :: "store \<Rightarrow> handle \<Rightarrow> jsval \<Rightarrow> string \<Rightarrow> error + resource"
  and fill :: "store \<Rightarrow> resource \<Rightarrow> jsval \<Rightarrow> completion \<times> resource"
  and set_res :: "store \<Rightarrow> resource \<Rightarrow> string \<Rightarrow> jsval \<Rightarrow> completion \<times> resource"
where
  "getCastValue st config key casts value0 =
     (let value = (if value0 = JUndefined then JNull else value0) in
      case map_of casts key of
        None \<Rightarrow> Inr value
      | Some type \<Rightarrow>
          (if type = TName [] then Inr value
           else
             (case type of
                TResource p cs \<Rightarrow> new_instance st type config value
              | TCast n \<Rightarrow> new_instance st type config value
              | TName n \<Rightarrow>
                  Inr (if n = ''boolean'' then (if truthy value then JBool (truthy value) else JBool False)
                       else if n = ''string'' then (if truthy value then JStr (to_string value) else JStr [])
                       else if n = ''integer'' then
                         (if truthy (JNum (parseInt value)) then JNum (parseInt value) else JNum (Fin 0))
                       else if n = ''decimal'' then
                         (if truthy (JNum (parseFloat value)) then JNum (parseFloat value) else JNum (Fin 0))
                       else value))))"
| "new_instance st type config value =
     (case type of
        TCast n \<Rightarrow> Inr (JObj (CastInst n config value) [])
      | TResource p cs \<Rightarrow>
          (case get_api st config of
             Inl e \<Rightarrow> Inl e
           | Inr api \<Rightarrow>
               (case OgResource_new st api value p of
                  Inl e \<Rightarrow> Inl e
                | Inr r \<Rightarrow>
                    (case fill st (fold (\<lambda>x r'. cast r' (fst x) (snd x)) cs r) value of
                       (Normal, r') \<Rightarrow> Inr (JObj (ResInst r') [])
                     | (Throw e, r') \<Rightarrow> Inl e)))
      | TName n \<Rightarrow> Inl (TypeError ''type is not a constructor''))"
| "OgResource_new st api attributes0 path0 =
     (case get_config st api of
        Inl e \<Rightarrow> Inl e
      | Inr cfg \<Rightarrow>
          (let attributes = (if attributes0 = JUndefined then JObj Plain [] else attributes0);
               r = Resource api (Wrapper OgResponse_new) [] [] (JObj Plain []) ''id'' status_idle
                     (if path0 = [] then ''/'' else path0)
           in case fill st r attributes of
                (Normal, r') \<Rightarrow> Inr r'
              | (Throw e, r') \<Rightarrow> Inl e))"
| "fill st r attributes =
     fold (\<lambda>path acc.
             (case fst acc of
                Throw e \<Rightarrow> acc
              | Normal \<Rightarrow>
                  (let value = lodash_get attributes path JNull
                   in if \<not> truthy value then acc else set_res st (snd acc) path value)))
       (r_fillable r) (Normal, r)"
| "set_res st r path value =
     (if path \<notin> set (r_fillable r) then (Normal, r)
      else
        (case get_config st (r_api r) of
           Inl e \<Rightarrow> (Throw e, r)
         | Inr cfg \<Rightarrow>
             (case getCastValue st cfg path (r_casts r) value of
                Inl e \<Rightarrow> (Throw e, r)
              | Inr v \<Rightarrow> (Normal, set_attributes (lodash_set (r_attributes r) path v) r))))"
  by pat_completeness auto
termination
  by (relation "measure (\<lambda>x. case x of
         Inl y \<Rightarrow> (case y of Inl a \<Rightarrow> 8 * size (snd (snd (snd (snd a)))) + 4
                            | Inr b \<Rightarrow> 8 * size (snd (snd (snd b))) + 3)
       | Inr y \<Rightarrow> (case y of Inl c \<Rightarrow> 1
            | Inr z \<Rightarrow> (case z of
                   Inl d \<Rightarrow> (if r_fillable (fst (snd d)) = [] then 0
                              else 8 * size (snd (snd d)) + 2)
                 | Inr e \<Rightarrow> 8 * size (snd (snd (snd e))) + 5)))")
    (auto dest: size_lodash_get)

declare getCastValue.simps [simp del] new_instance.simps [simp del] OgResource_new.simps [simp del]
  fill.simps [simp del] set_res.simps [simp del]

text \<open>The constructor without the recursion: its \<^verbatim>\<open>fill\<close> has nothing to fill.\<close>

lemma OgResource_new_eq:
  "OgResource_new st api attributes0 path0 =
     (case get_config st api of
        Inl e \<Rightarrow> Inl e
      | Inr cfg \<Rightarrow> Inr (Resource api (Wrapper OgResponse_new) [] [] (JObj Plain []) ''id'' status_idle
                     (if path0 = [] then ''/'' else path0)))"
  by (simp add: OgResource_new.simps fill.simps split: sum.splits)

text \<open>\<^verbatim>\<open>set\<close> and \<^verbatim>\<open>fill\<close> change the attributes of a resource and nothing else.\<close>

lemma set_attributes_twice [simp]: "set_attributes a (set_attributes b r) = set_attributes a r"
  by (simp add: set_attributes_def)

lemma set_res_attributes_only: "\<exists>a. snd (set_res st r p v) = set_attributes a r"
proof (cases "snd (set_res st r p v) = r")
  case True
  have "set_attributes (r_attributes r) r = r" by (cases r) (simp add: set_attributes_def)
  then show ?thesis using True by metis
next
  case False
  then show ?thesis by (auto simp: set_res.simps split: if_splits sum.splits)
qed

lemma fill_fold_attributes_only:
  "\<exists>b. snd (fold (\<lambda>path acc.
             (case fst acc of
                Throw e \<Rightarrow> acc
              | Normal \<Rightarrow>
                  (let value = lodash_get a path JNull
                   in if \<not> truthy value then acc else set_res st (snd acc) path value))) xs x)
     = set_attributes b (snd x)"
proof (induction xs arbitrary: x)
  case Nil
  have "set_attributes (r_attributes (snd x)) (snd x) = snd x"
    by (cases "snd x") (simp add: set_attributes_def)
  then show ?case by (metis fold_simps(1))
next
  case (Cons p ps)
  let ?y = "(case fst x of
                Throw e \<Rightarrow> x
              | Normal \<Rightarrow>
                  (let value = lodash_get a p JNull
                   in if \<not> truthy value then x else set_res st (snd x) p value))"
  have "\<exists>c. snd ?y = set_attributes c (snd x)"
  proof (cases "snd ?y = snd x")
    case True
    have "set_attributes (r_attributes (snd x)) (snd x) = snd x"
      by (cases "snd x") (simp add: set_attributes_def)
    then show ?thesis using True by metis
  next
    case False
    then have "snd ?y = snd (set_res st (snd x) p (lodash_get a p JNull))"
      by (auto simp: Let_def split: completion.splits if_splits)
    then show ?thesis using set_res_attributes_only by simp
  qed
  then obtain c where c: "snd ?y = set_attributes c (snd x)" ..
  from Cons.IH [of ?y] obtain b where
    "snd (fold (\<lambda>path acc.
             (case fst acc of
                Throw e \<Rightarrow> acc
              | Normal \<Rightarrow>
                  (let value = lodash_get a path JNull
                   in if \<not> truthy value then acc else set_res st (snd acc) path value))) ps ?y)
     = set_attributes b (snd ?y)" ..
  then show ?case using c by auto
qed

lemma fill_attributes_only: "\<exists>b. snd (fill st r a) = set_attributes b r"
  using fill_fold_attributes_only [of a st "r_fillable r" "(Normal, r)"] by (simp add: fill.simps)

lemma fill_r_casts [simp]: "r_casts (snd (fill st r a)) = r_casts r"
  using fill_attributes_only [of st r a] by (auto simp: set_attributes_def)


lemma fill_r_fillable [simp]: "r_fillable (snd (fill st r a)) = r_fillable r"
  using fill_attributes_only [of st r a] by (auto simp: set_attributes_def)

text \<open>
  The construction of a subtype instance, step by step: the transport of the
  configuration, the base constructor, the declared casts, the fill with the input.
\<close>

lemma new_instance_TResource:
  "new_instance st (TResource p cs) config value = Inr w \<longleftrightarrow>
     (\<exists>api r0 child. get_api st config = Inr api \<and> OgResource_new st api value p = Inr r0
        \<and> fill st (fold (\<lambda>x r'. cast r' (fst x) (snd x)) cs r0) value = (Normal, child)
        \<and> w = JObj (ResInst child) [])"
  by (auto simp: new_instance.simps split: sum.splits prod.splits completion.splits)

section \<open>The derived schema\<close>

text \<open>
  The getter \<^verbatim>\<open>SCHEMA\<close> calls itself on the nested instance it has just stored in the
  schema under construction. It terminates because the casts of that instance are those
  its type descriptor declares, and descriptors are finite trees: the weight of the casts
  decreases. The lemmas below establish this for the termination proof.
\<close>

fun type_weight :: "cast_type \<Rightarrow> nat" where
  "type_weight (TName n) = 1"
| "type_weight (TCast n) = 1"
| "type_weight (TResource p cs) = Suc (sum_list (map (\<lambda>x. type_weight (snd x)) cs))"

definition casts_weight :: "(string \<times> cast_type) list \<Rightarrow> nat" where
  "casts_weight cs = sum_list (map (\<lambda>x. type_weight (snd x)) cs)"

lemma casts_weight_update: "casts_weight (AList.update k t cs) \<le> casts_weight cs + type_weight t"
  by (induction cs) (auto simp: casts_weight_def)

lemma r_casts_cast [simp]: "r_casts (cast r k t) = AList.update k t (r_casts r)"
  by (simp add: cast_def fillable_def set_fillable_def set_casts_def)

lemma casts_weight_fold_cast:
  "casts_weight (r_casts (fold (\<lambda>x r'. cast r' (fst x) (snd x)) cs r))
     \<le> casts_weight (r_casts r) + casts_weight cs"
proof (induction cs arbitrary: r)
  case Nil
  then show ?case by (simp add: casts_weight_def)
next
  case (Cons x xs)
  have "casts_weight (r_casts (fold (\<lambda>x r'. cast r' (fst x) (snd x)) xs (cast r (fst x) (snd x))))
          \<le> casts_weight (r_casts (cast r (fst x) (snd x))) + casts_weight xs"
    by (rule Cons.IH)
  also have "\<dots> \<le> casts_weight (r_casts r) + type_weight (snd x) + casts_weight xs"
    using casts_weight_update [of "fst x" "snd x" "r_casts r"] by simp
  finally show ?case by (simp add: casts_weight_def)
qed

lemma casts_weight_member:
  "map_of casts key = Some t \<Longrightarrow> type_weight t \<le> casts_weight casts"
proof -
  assume "map_of casts key = Some t"
  then have "(key, t) \<in> set casts" by (rule map_of_SomeD)
  then show ?thesis
    by (induction casts) (auto simp: casts_weight_def)
qed

lemma getCastValue_ResInst:
  assumes "getCastValue st cfg key casts JNull = Inr (JObj (ResInst child) ps)"
  shows "casts_weight (r_casts child) < casts_weight casts"
proof -
  from assms obtain p cs where t: "map_of casts key = Some (TResource p cs)"
    and n: "new_instance st (TResource p cs) cfg JNull = Inr (JObj (ResInst child) ps)"
    by (auto simp: getCastValue.simps new_instance.simps split: option.splits if_splits cast_type.splits)
  from n obtain api r0 where r0: "OgResource_new st api JNull p = Inr r0"
    and c: "fill st (fold (\<lambda>x r'. cast r' (fst x) (snd x)) cs r0) JNull = (Normal, child)"
    by (auto simp: new_instance_TResource)
  from r0 have "r_casts r0 = []"
    by (auto simp: OgResource_new_eq split: sum.splits)
  moreover have "r_casts child = r_casts (fold (\<lambda>x r'. cast r' (fst x) (snd x)) cs r0)"
    using fill_r_casts [of st "fold (\<lambda>x r'. cast r' (fst x) (snd x)) cs r0" JNull] c by simp
  ultimately have "casts_weight (r_casts child) \<le> casts_weight cs"
    using casts_weight_fold_cast [of cs r0] by (simp add: casts_weight_def)
  also have "\<dots> < type_weight (TResource p cs)" by (simp add: casts_weight_def)
  also have "\<dots> \<le> casts_weight casts" using t by (rule casts_weight_member)
  finally show ?thesis .
qed

lemma split_dots_nonempty [simp]: "split_dots p \<noteq> []"
  by (induction p) (auto split: list.splits)

lemma split_dots_no_dot: "CHR ''.'' \<notin> set p \<Longrightarrow> split_dots p = [p]"
  by (induction p) auto

lemma hd_split_dots_no_dot: "CHR ''.'' \<notin> set (hd (split_dots p))"
  by (induction p) (auto split: list.splits)

lemma hd_split_dots_neq: "CHR ''.'' \<in> set p \<Longrightarrow> hd (split_dots p) \<noteq> p"
  using hd_split_dots_no_dot [of p] by auto

lemma isObject_assignValue [simp]: "isObject (assignValue obj k v) = isObject obj"
  by (auto simp: assignValue_def isObject_def split: jsval.splits)

lemma own_prop_assignValue:
  "isObject obj \<Longrightarrow> own_prop (assignValue obj k v) k' = (if k' = k then v else own_prop obj k')"
  by (auto simp: assignValue_def isObject_def own_prop_def update_conv' split: jsval.splits)

lemma has_key_assignValue:
  "isObject obj \<Longrightarrow> has_key (assignValue obj k v) k' = (k' = k \<or> has_key obj k')"
  by (cases obj) (auto simp add: assignValue_def isObject_def has_key_def dom_update)

lemma isObject_not_nullish: "isObject obj \<Longrightarrow> \<not> nullish obj"
  by (auto simp: isObject_def nullish_def)

lemma baseGet_baseSet:
  "isObject obj \<Longrightarrow> ks \<noteq> [] \<Longrightarrow> baseGet (baseSet obj ks v) ks = v"
proof (induction obj ks v rule: baseSet.induct)
  case (1 obj v)
  then show ?case by simp
next
  case (2 obj k v)
  then show ?case by (simp add: own_prop_assignValue isObject_not_nullish)
next
  case (3 obj k k' ks v)
  define nv where "nv = (if isObject (own_prop obj k) then own_prop obj k else JObj Plain [])"
  have "isObject nv" by (simp add: nv_def isObject_def)
  then have "baseGet (baseSet nv (k' # ks) v) (k' # ks) = v"
    using 3 by (simp add: nv_def)
  then show ?case using 3(2)
    by (simp add: Let_def own_prop_assignValue isObject_not_nullish nv_def del: baseGet.simps baseSet.simps
        add: baseGet.simps(2)[of _ k] baseSet.simps(3))
qed

lemma isObject_baseSet [simp]: "isObject (baseSet obj ks v) = isObject obj"
  by (induction obj ks v rule: baseSet.induct) (auto simp: Let_def)

lemma has_key_baseSet:
  "isObject obj \<Longrightarrow> ks \<noteq> [] \<Longrightarrow> has_key (baseSet obj ks v) k = (k = hd ks \<or> has_key obj k)"
  by (induction obj ks v rule: baseSet.induct) (auto simp: Let_def has_key_assignValue)

lemma castPath_lodash_set:
  "isObject obj \<Longrightarrow> castPath p (lodash_set obj p v) = castPath p obj"
proof (cases "has_key obj p")
  case True
  assume "isObject obj"
  then show ?thesis using True
    by (simp add: castPath_def lodash_set_def has_key_assignValue)
next
  case False
  assume o: "isObject obj"
  show ?thesis
  proof (cases "CHR ''.'' \<in> set p")
    case True
    then have "hd (split_dots p) \<noteq> p" by (rule hd_split_dots_neq)
    then show ?thesis using False o
      by (auto simp: castPath_def lodash_set_def has_key_baseSet)
  next
    case False
    then show ?thesis using o
      by (simp add: castPath_def lodash_set_def split_dots_no_dot has_key_assignValue)
  qed
qed

lemma castPath_nonempty [simp]: "castPath p obj \<noteq> []"
  by (simp add: castPath_def)

lemma isObject_lodash_set [simp]: "isObject (lodash_set obj p v) = isObject obj"
  by (simp add: lodash_set_def)

lemma lodash_get_set:
  "isObject obj \<Longrightarrow> lodash_get (lodash_set obj p v) p d = (if v = JUndefined then d else v)"
proof -
  assume o: "isObject obj"
  have "baseGet (lodash_set obj p v) (castPath p (lodash_set obj p v)) = v"
    using o by (simp add: castPath_lodash_set) (simp add: lodash_set_def baseGet_baseSet)
  then show ?thesis using o
    by (simp add: lodash_get_def Let_def isObject_not_nullish)
qed

lemma baseGet_non_object: "\<not> isObject obj \<Longrightarrow> ks \<noteq> [] \<Longrightarrow> baseGet obj ks = JUndefined"
proof (cases ks)
  case Nil
  assume "ks \<noteq> []" then show ?thesis using Nil by simp
next
  case (Cons k ks')
  assume "\<not> isObject obj"
  then have "own_prop obj k = JUndefined"
    by (auto simp: own_prop_def isObject_def split: jsval.splits)
  then show ?thesis using Cons by (cases ks') (auto simp: nullish_def)
qed

lemma lodash_get_non_object: "\<not> isObject obj \<Longrightarrow> lodash_get obj p d = d"
  by (simp add: lodash_get_def Let_def baseGet_non_object)

lemma lodash_get_set_object:
  "lodash_get (lodash_set obj p v) p JUndefined = JObj k ps \<Longrightarrow> v = JObj k ps"
proof (cases "isObject obj")
  case True
  assume "lodash_get (lodash_set obj p v) p JUndefined = JObj k ps"
  then show ?thesis using True by (simp add: lodash_get_set split: if_splits)
next
  case False
  assume "lodash_get (lodash_set obj p v) p JUndefined = JObj k ps"
  then show ?thesis using False by (simp add: lodash_get_non_object)
qed

text \<open>
  \<^verbatim>\<open>get SCHEMA()\<close>: for every cast path, the cast of \<open>null\<close> is stored in the schema;
  when the value read back is an instance of \<^verbatim>\<open>OgResource\<close>, its own schema replaces it.
\<close>

function SCHEMA :: "store \<Rightarrow> resource \<Rightarrow> error + jsval" where
  "SCHEMA st r =
     fold (\<lambda>path acc.
             (case acc of
                Inl e \<Rightarrow> Inl e
              | Inr schema \<Rightarrow>
                  (case get_config st (r_api r) of
                     Inl e \<Rightarrow> Inl e
                   | Inr cfg \<Rightarrow>
                       (case getCastValue st cfg path (r_casts r) JNull of
                          Inl e \<Rightarrow> Inl e
                        | Inr v \<Rightarrow>
                            (let schema1 = lodash_set schema path v;
                                 value = lodash_get schema1 path JUndefined
                             in (case value of
                                   JObj k ps \<Rightarrow>
                                     (case k of
                                        ResInst child \<Rightarrow>
                                          (case SCHEMA st child of
                                             Inl e \<Rightarrow> Inl e
                                           | Inr s \<Rightarrow> Inr (lodash_set schema1 path s))
                                      | _ \<Rightarrow> Inr schema1)
                                 | _ \<Rightarrow> Inr schema1))))))
       (object_keys (map fst (r_casts r))) (Inr (JObj Plain []))"
  by pat_completeness auto
termination
proof (relation "measure (\<lambda>x. casts_weight (r_casts (snd x)))")
  show "wf (measure (\<lambda>x. casts_weight (r_casts (snd x))))" by simp
next
  fix st r path acc schema cfg v schema1 "value" k ps child
  assume "getCastValue st cfg path (r_casts r) JNull = Inr v"
    and "schema1 = lodash_set schema path v"
    and "value = lodash_get schema1 path JUndefined"
    and "value = JObj k ps" and "k = ResInst child"
  then have "v = JObj (ResInst child) ps"
    using lodash_get_set_object [of schema path v k ps] by simp
  then show "((st, child), (st, r)) \<in> measure (\<lambda>x. casts_weight (r_casts (snd x)))"
    using \<open>getCastValue st cfg path (r_casts r) JNull = Inr v\<close> getCastValue_ResInst by simp
qed

declare SCHEMA.simps [simp del]

section \<open>Reading, serialization and the operation lifecycle\<close>

definition get_res :: "store \<Rightarrow> resource \<Rightarrow> string \<Rightarrow> jsval \<Rightarrow> error + jsval" where
  "get_res st r path defaultValue0 =
     (let defaultValue = (if defaultValue0 = JUndefined then JNull else defaultValue0);
          value = lodash_get (r_attributes r) path defaultValue
      in if \<not> truthy value then
           (case SCHEMA st r of
              Inl e \<Rightarrow> Inl e
            | Inr schema \<Rightarrow> Inr (lodash_get schema path defaultValue))
         else Inr value)"

definition filled :: "resource \<Rightarrow> string \<Rightarrow> bool" where
  "filled r path = (lodash_get (r_attributes r) path JNull \<noteq> JNull)"

text \<open>The value stored at a path: what lodash \<^verbatim>\<open>get\<close> reads there with no default.\<close>

definition stored :: "resource \<Rightarrow> string \<Rightarrow> jsval" where
  "stored r path = lodash_get (r_attributes r) path JUndefined"

definition toJSON :: "store \<Rightarrow> resource \<Rightarrow> error + jsval" where
  "toJSON st r =
     fold (\<lambda>path acc.
             (case acc of
                Inl e \<Rightarrow> Inl e
              | Inr out \<Rightarrow>
                  (case get_res st r path JUndefined of
                     Inl e \<Rightarrow> Inl e
                   | Inr v \<Rightarrow> Inr (lodash_set out path v))))
       (object_keys (map fst (r_casts r))) (Inr (JObj Plain []))"

definition statusReset :: "resource \<Rightarrow> resource" where
  "statusReset r =
     set_status ((r_status r)\<lparr>creating := False, updating := False,
                              deleting := False, fetching := False\<rparr>) r"

definition reset :: "store \<Rightarrow> resource \<Rightarrow> completion \<times> resource" where
  "reset st r =
     (case toJSON st r of
        Inl e \<Rightarrow> (Throw e, r)
      | Inr out \<Rightarrow> (Normal, set_attributes out r))"

text \<open>
  \<^verbatim>\<open>define(casts)\<close>: the argument is an object from paths to type descriptors, walked in
  the order of \<^verbatim>\<open>Object.keys\<close>.
\<close>

definition define_casts ::
  "store \<Rightarrow> resource \<Rightarrow> (string \<times> cast_type) list \<Rightarrow> completion \<times> resource" where
  "define_casts st r casts =
     (let r1 = fold (\<lambda>path r'. cast r' path (case map_of casts path of Some t \<Rightarrow> t | None \<Rightarrow> TName []))
                 (object_keys (map fst casts)) r
      in case toJSON st r1 of
           Inl e \<Rightarrow> (Throw e, r1)
         | Inr out \<Rightarrow> (Normal, set_attributes out r1))"

text \<open>
  The call \<^verbatim>\<open>this.$api.abort()\<close>. \<^verbatim>\<open>OgApi.js\<close> declares the methods \<^verbatim>\<open>header\<close>,
  \<^verbatim>\<open>acceptJson\<close>, \<^verbatim>\<open>contentTypeJson\<close>, \<^verbatim>\<open>xMLHttpRequest\<close>, \<^verbatim>\<open>token\<close>, \<^verbatim>\<open>request\<close>,
  \<^verbatim>\<open>post\<close>, \<^verbatim>\<open>get\<close> and \<^verbatim>\<open>url\<close> and the getter \<^verbatim>\<open>config\<close>: it has no member
  \<^verbatim>\<open>abort\<close>, and neither has a configuration store. The member reads as undefined on
  every object of the store, and calling it throws a \<^verbatim>\<open>TypeError\<close>, as reading it from
  undefined does.
\<close>

definition OgApi_abort :: "store \<Rightarrow> handle \<Rightarrow> completion" where
  "OgApi_abort st h =
     (case h of
        HUndefined \<Rightarrow> Throw (TypeError ''Cannot read properties of undefined'')
      | HRef a \<Rightarrow> Throw (TypeError ''this.$api.abort is not a function''))"

text \<open>
  Modelled from the spec: \<^verbatim>\<open>OgResponse.clear\<close> is not under src/; it ``clears the
  Response Wrapper's prior result''. On a payload, which has no such method, the call
  throws.
\<close>

definition response_clear :: "response \<Rightarrow> error + response" where
  "response_clear x =
     (case x of
        Wrapper w \<Rightarrow> Inr (Wrapper OgResponse_new)
      | Payload v \<Rightarrow> Inl (TypeError ''this.$response.clear is not a function''))"

text \<open>The expression \<^verbatim>\<open>this.$response.key\<close>.\<close>

definition response_prop :: "response \<Rightarrow> string \<Rightarrow> error + jsval" where
  "response_prop x key =
     (case x of
        Wrapper w \<Rightarrow>
          Inr (if key = ''failed'' then JBool (failed w)
               else if key = ''message'' then JStr (message w)
               else if key = ''status'' then JNum (Fin (of_nat (code w)))
               else JUndefined)
      | Payload v \<Rightarrow>
          (if nullish v then Inl (TypeError ''Cannot read properties of null'')
           else Inr (own_prop v key)))"

definition abort :: "store \<Rightarrow> resource \<Rightarrow> completion \<times> resource" where
  "abort st r =
     (case OgApi_abort st (r_api r) of
        Throw e \<Rightarrow> (Throw e, r)
      | Normal \<Rightarrow>
          (let r1 = statusReset r
           in case response_clear (r_response r1) of
                Inl e \<Rightarrow> (Throw e, r1)
              | Inr w \<Rightarrow> reset st (set_response w r1)))"

subsection \<open>The transport\<close>

text \<open>
  What \<^verbatim>\<open>fetch\<close> answers is an input of the model: the promise rejects, or resolves to a
  response whose body parses as JSON or not. The request that is sent (URL, headers,
  serialized body) is not part of the state and is not represented; reading the
  configuration for it (\<^verbatim>\<open>this.config.get\<close>) is taken to throw when the transport holds
  anything but a configuration store.
\<close>

record http_response =
  http_ok :: bool
  http_status :: nat
  http_statusText :: string
  http_json :: "error + jsval"

datatype fetch_outcome = Rejected error | Resolved http_response

definition OgApi_new :: "handle \<Rightarrow> og_api" where
  "OgApi_new config =
     \<lparr>api_config = config, api_headers = [],
      api_response = \<lparr>resp_ok = True, resp_message = [], resp_status = 200,
                       resp_data = JObj Plain []\<rparr>\<rparr>"

definition HTTP_NO_CONTENT :: nat where
  "HTTP_NO_CONTENT = 204"

definition OgApi_request :: "store \<Rightarrow> ref \<Rightarrow> fetch_outcome \<Rightarrow> completion \<times> store" where
  "OgApi_request st a outcome =
     (case st a of
        Some (ApiObj x) \<Rightarrow>
          (case api_config x of
             HUndefined \<Rightarrow> (Throw (TypeError ''Cannot read properties of undefined''), st)
           | HRef c \<Rightarrow>
               (case st c of
                  Some (ConfigObj h k) \<Rightarrow>
                    (case outcome of
                       Rejected e \<Rightarrow> (Throw e, st)
                     | Resolved resp \<Rightarrow>
                         (if http_ok resp then
                            (if http_status resp \<noteq> HTTP_NO_CONTENT then
                               (case http_json resp of
                                  Inl e \<Rightarrow> (Throw e, st)
                                | Inr d \<Rightarrow>
                                    (Normal, st(a \<mapsto> ApiObj (x\<lparr>api_response :=
                                       (api_response x)\<lparr>resp_ok := True,
                                          resp_message := http_statusText resp,
                                          resp_data := d\<rparr>\<rparr>))))
                             else
                               (Normal, st(a \<mapsto> ApiObj (x\<lparr>api_response :=
                                  (api_response x)\<lparr>resp_ok := True,
                                     resp_message := http_statusText resp,
                                     resp_data := JObj Plain []\<rparr>\<rparr>))))
                          else
                            (Normal, st(a \<mapsto> ApiObj (x\<lparr>api_response :=
                               (api_response x)\<lparr>resp_ok := False,
                                  resp_message := http_statusText resp,
                                  resp_status := http_status resp,
                                  resp_data := JObj Plain []\<rparr>\<rparr>)))))
                | _ \<Rightarrow> (Throw (TypeError ''this.config.get is not a function''), st)))
      | _ \<Rightarrow> (Throw (TypeError ''this.request is not a function''), st))"

text \<open>\<^verbatim>\<open>post(path, data)\<close> returns \<^verbatim>\<open>this.$response.data\<close>, the payload, not the result.\<close>

definition OgApi_post :: "store \<Rightarrow> handle \<Rightarrow> fetch_outcome \<Rightarrow> (error + jsval) \<times> store" where
  "OgApi_post st h outcome =
     (case h of
        HUndefined \<Rightarrow> (Inl (TypeError ''Cannot read properties of undefined''), st)
      | HRef a \<Rightarrow>
          (case st a of
             Some (ApiObj x) \<Rightarrow>
               (case OgApi_request st a outcome of
                  (Throw e, st') \<Rightarrow> (Inl e, st')
                | (Normal, st') \<Rightarrow>
                    (case st' a of
                       Some (ApiObj x') \<Rightarrow> (Inr (resp_data (api_response x')), st')
                     | _ \<Rightarrow> (Inr JUndefined, st')))
           | _ \<Rightarrow> (Inl (TypeError ''this.$api.post is not a function''), st)))"

definition save :: "store \<Rightarrow> resource \<Rightarrow> fetch_outcome \<Rightarrow> completion \<times> store \<times> resource" where
  "save st r outcome =
     (case OgApi_abort st (r_api r) of
        Throw e \<Rightarrow> (Throw e, st, r)
      | Normal \<Rightarrow>
          (let r1 = statusReset r
           in case response_clear (r_response r1) of
                Inl e \<Rightarrow> (Throw e, st, r1)
              | Inr w \<Rightarrow>
                  (let r2 = set_response w r1;
                       r3 = set_status ((r_status r2)\<lparr>creating := True\<rparr>) r2
                   in case toJSON st r3 of
                        Inl e \<Rightarrow> (Throw e, st, r3)
                      | Inr body \<Rightarrow>
                          (case OgApi_post st (r_api r3) outcome of
                             (Inl e, st') \<Rightarrow> (Throw e, st', r3)
                           | (Inr d, st') \<Rightarrow>
                               (let r4 = set_response (Payload d) r3
                                in case response_prop (r_response r4) ''failed'' of
                                     Inl e \<Rightarrow> (Throw e, st', r4)
                                   | Inr f \<Rightarrow>
                                       (if truthy f then
                                          (let r5 = statusReset r4
                                           in case response_prop (r_response r5) ''message'' of
                                                Inl e \<Rightarrow> (Throw e, st', r5)
                                              | Inr m \<Rightarrow>
                                                  (Throw (Error (if m = JUndefined then []
                                                                 else to_string m)), st', r5))
                                        else
                                          (case response_prop (r_response r4) ''data'' of
                                             Inl e \<Rightarrow> (Throw e, st', r4)
                                           | Inr dd \<Rightarrow>
                                               (case fill st' r4 dd of
                                                  (Throw e, r5) \<Rightarrow> (Throw e, st', r5)
                                                | (Normal, r5) \<Rightarrow>
                                                    (Normal, st',
                                                     set_status ((r_status r5)\<lparr>creating := False\<rparr>)
                                                       r5)))))))))"

section \<open>Vocabulary of the statements\<close>

subsection \<open>Paths that do not interfere\<close>

text \<open>
  \<^verbatim>\<open>toJSON\<close> and \<^verbatim>\<open>SCHEMA\<close> write one value per cast path into a fresh object. A write at
  a path goes through the objects on the way and replaces what is not an object, so two
  cast paths interfere exactly when the segments of one are a prefix of the segments of
  the other. Paths that are not in this relation are unrelated.
\<close>

text \<open>\<open>starts_with ks ps\<close>: the segments \<open>ks\<close> begin with the segments \<open>ps\<close>.\<close>

fun starts_with :: "string list \<Rightarrow> string list \<Rightarrow> bool" where
  "starts_with ks [] = True"
| "starts_with [] (p # ps) = False"
| "starts_with (k # ks) (p # ps) = (k = p \<and> starts_with ks ps)"

definition unrelated :: "string \<Rightarrow> string \<Rightarrow> bool" where
  "unrelated p q =
     (\<not> starts_with (split_dots q) (split_dots p) \<and> \<not> starts_with (split_dots p) (split_dots q))"

text \<open>The top-level keys of an object.\<close>

definition top_keys :: "jsval \<Rightarrow> string set" where
  "top_keys v = (case v of JObj k ps \<Rightarrow> fst ` set ps | _ \<Rightarrow> {})"

text \<open>
  The objects that \<^verbatim>\<open>toJSON\<close> and \<^verbatim>\<open>SCHEMA\<close> build have no dot in a top-level key,
  so lodash never takes a dotted path as one key on them. The two loops have one shape:
  for each path in turn, a value is computed and written at the path, and the first throw
  ends the loop. \<open>schema_entry\<close> is the value that one round of \<^verbatim>\<open>SCHEMA\<close> leaves at the
  path: the cast of \<open>null\<close>, or the schema of the nested instance.
\<close>

definition dot_free :: "jsval \<Rightarrow> bool" where
  "dot_free v = (isObject v \<and> (\<forall>k \<in> top_keys v. CHR ''.'' \<notin> set k))"

definition set_each ::
  "(string \<Rightarrow> error + jsval) \<Rightarrow> string list \<Rightarrow> error + jsval \<Rightarrow> error + jsval" where
  "set_each g ps acc =
     fold (\<lambda>path acc.
             (case acc of
                Inl e \<Rightarrow> Inl e
              | Inr out \<Rightarrow>
                  (case g path of
                     Inl e \<Rightarrow> Inl e
                   | Inr v \<Rightarrow> Inr (lodash_set out path v))))
       ps acc"

definition schema_entry :: "store \<Rightarrow> resource \<Rightarrow> string \<Rightarrow> error + jsval" where
  "schema_entry st r path =
     (case get_config st (r_api r) of
        Inl e \<Rightarrow> Inl e
      | Inr cfg \<Rightarrow>
          (case getCastValue st cfg path (r_casts r) JNull of
             Inl e \<Rightarrow> Inl e
           | Inr v \<Rightarrow>
               (case v of
                  JObj k ps \<Rightarrow> (case k of ResInst child \<Rightarrow> SCHEMA st child | _ \<Rightarrow> Inr v)
                | _ \<Rightarrow> Inr v)))"

text \<open>
  The zero value of a declared type, in the words of the spec: ``\<^verbatim>\<open>false\<close>, \<^verbatim>\<open>""\<close>,
  \<^verbatim>\<open>0\<close>, \<^verbatim>\<open>0.0\<close>'' for \<^verbatim>\<open>boolean\<close>, \<^verbatim>\<open>string\<close>, \<^verbatim>\<open>integer\<close>, \<^verbatim>\<open>decimal\<close>; any other
  descriptor that is a string passes \<open>null\<close> through. It is compared with the casting
  engine below.
\<close>

definition zero_value :: "string \<Rightarrow> jsval" where
  "zero_value t =
     (if t = ''boolean'' then JBool False
      else if t = ''string'' then JStr []
      else if t = ''integer'' then JNum (Fin 0)
      else if t = ''decimal'' then JNum (Fin 0)
      else JNull)"

subsection \<open>Reachable states\<close>

text \<open>
  The states of a resource that its operations produce from a constructed instance. A
  state left by a throw is reachable too. \<^verbatim>\<open>save\<close> is the one operation that changes the
  store.
\<close>

inductive reachable :: "store \<Rightarrow> resource \<Rightarrow> bool" where
  constructed: "OgResource_new st api attributes path = Inr r \<Longrightarrow> reachable st r"
| after_cast: "reachable st r \<Longrightarrow> reachable st (cast r p t)"
| after_fillable: "reachable st r \<Longrightarrow> reachable st (fillable r p)"
| after_define: "reachable st r \<Longrightarrow> define_casts st r cs = (c, r') \<Longrightarrow> reachable st r'"
| after_fill: "reachable st r \<Longrightarrow> fill st r a = (c, r') \<Longrightarrow> reachable st r'"
| after_set: "reachable st r \<Longrightarrow> set_res st r p v = (c, r') \<Longrightarrow> reachable st r'"
| after_save: "reachable st r \<Longrightarrow> save st r outcome = (c, st', r') \<Longrightarrow> reachable st' r'"
| after_abort: "reachable st r \<Longrightarrow> abort st r = (c, r') \<Longrightarrow> reachable st r'"
| after_reset: "reachable st r \<Longrightarrow> reset st r = (c, r') \<Longrightarrow> reachable st r'"

text \<open>The declared shape of a resource, and the invariant ``cast implies fillable''.\<close>

definition shape :: "resource \<Rightarrow> (string \<times> cast_type) list \<times> string list" where
  "shape r = (r_casts r, r_fillable r)"

definition cast_implies_fillable :: "resource \<Rightarrow> bool" where
  "cast_implies_fillable r = (fst ` set (r_casts r) \<subseteq> set (r_fillable r))"

section \<open>Example states\<close>

text \<open>
  A transport at reference 0 whose configuration store is the object at reference 1, as
  the bootstrap wires them, and the resource that \<^verbatim>\<open>new OgResource(api)\<close> builds on it.
\<close>

definition example_store :: store where
  "example_store = [0 \<mapsto> ApiObj (OgApi_new (HRef 1)), 1 \<mapsto> ConfigObj HUndefined (HRef 0)]"

definition base_resource :: resource where
  "base_resource =
     Resource (HRef 0) (Wrapper OgResponse_new) [] [] (JObj Plain []) ''id'' status_idle ''/''"

text \<open>The scenario resource: \<^verbatim>\<open>cast('name', 'string')\<close>, \<^verbatim>\<open>cast('age', 'integer')\<close>.\<close>

definition person :: resource where
  "person = cast (cast base_resource ''name'' (TName ''string'')) ''age'' (TName ''integer'')"

text \<open>
  The scenario subtype \<^verbatim>\<open>AddressResource\<close>, which casts \<^verbatim>\<open>city\<close> as \<^verbatim>\<open>'string'\<close>, and a
  resource that declares \<^verbatim>\<open>cast('address', AddressResource)\<close>.
\<close>

definition AddressResource :: cast_type where
  "AddressResource = TResource ''addresses'' [(''city'', TName ''string'')]"

definition customer :: resource where
  "customer = cast base_resource ''address'' AddressResource"

text \<open>The scenario outcome \<^verbatim>\<open>{ok: false, status: 419, message: 'Expired'}\<close>.\<close>

definition expired :: fetch_outcome where
  "expired = Resolved \<lparr>http_ok = False, http_status = 419, http_statusText = ''Expired'',
                        http_json = Inr (JObj Plain [])\<rparr>"

text \<open>
  The instance that \<^verbatim>\<open>new AddressResource(config, null)\<close> builds when \<^verbatim>\<open>config\<close> is the
  configuration store at reference 1, and the one that
  \<^verbatim>\<open>new AddressResource(config, {city: 'Lima'})\<close> builds.
\<close>

definition address_child :: resource where
  "address_child =
     cast (Resource (HRef 0) (Wrapper OgResponse_new) [] [] (JObj Plain []) ''id'' status_idle
             ''addresses'') ''city'' (TName ''string'')"



text \<open>A resource with the integer cast \<^verbatim>\<open>a\<close>, holding 5 there.\<close>

definition counter :: resource where
  "counter = set_attributes (JObj Plain [(''a'', JNum (Fin 5))])
               (cast base_resource ''a'' (TName ''integer''))"

text \<open>
  A resource with the fillable, uncast path \<^verbatim>\<open>x\<close>, after \<^verbatim>\<open>set('x', 0)\<close> and after
  \<^verbatim>\<open>set('x', 5)\<close>.
\<close>

definition zero_noted :: resource where
  "zero_noted = set_attributes (JObj Plain [(''x'', JNum (Fin 0))]) (fillable base_resource ''x'')"

definition noted :: resource where
  "noted = set_attributes (JObj Plain [(''x'', JNum (Fin 5))]) (fillable base_resource ''x'')"

text \<open>
  A resource that declares \<^verbatim>\<open>cast('a.b', 'string')\<close> and then \<^verbatim>\<open>cast('a', 'string')\<close>: the
  second path is a prefix of the first.
\<close>

definition overlapping :: resource where
  "overlapping = cast (cast base_resource ''a.b'' (TName ''string'')) ''a'' (TName ''string'')"

text \<open>
  The scenario resource with one more fillable path, \<^verbatim>\<open>nick\<close>, that has no cast and holds
  a value.
\<close>

definition person_nick :: resource where
  "person_nick =
     set_attributes (JObj Plain [(''name'', JStr ''Ana''), (''age'', JNum (Fin 7)),
                                 (''nick'', JStr ''Annie'')])
       (fillable person ''nick'')"

text \<open>
  A resource after \<^verbatim>\<open>cast('a', 'string')\<close>, \<^verbatim>\<open>fillable('a.secret')\<close> and
  \<^verbatim>\<open>set('a.secret', 1)\<close>: the fillable path \<^verbatim>\<open>a.secret\<close> has no cast and lies below the
  cast path \<^verbatim>\<open>a\<close>.
\<close>

definition secretive :: resource where
  "secretive =
     set_attributes (JObj Plain [(''a'', JObj Plain [(''secret'', JNum (Fin 1))])])
       (fillable (cast base_resource ''a'' (TName ''string'')) ''a.secret'')"

text \<open>
  Two levels of nesting: a resource casts \<^verbatim>\<open>address\<close> to a subtype that casts \<^verbatim>\<open>geo\<close> to
  another subtype. \<open>geo_address_child\<close> is the instance built for \<^verbatim>\<open>address\<close> from
  \<open>null\<close>.
\<close>

definition GeoResource :: cast_type where
  "GeoResource = TResource ''geos'' [(''lat'', TName ''decimal'')]"

definition AddressWithGeo :: cast_type where
  "AddressWithGeo = TResource ''addresses'' [(''geo'', GeoResource)]"

definition traveller :: resource where
  "traveller = cast base_resource ''address'' AddressWithGeo"

definition geo_address_child :: resource where
  "geo_address_child =
     cast (Resource (HRef 0) (Wrapper OgResponse_new) [] [] (JObj Plain []) ''id'' status_idle
             ''addresses'') ''geo'' GeoResource"

section \<open>Facts about the model\<close>

lemmas res_simps = set_response_def set_fillable_def set_casts_def set_attributes_def
  set_status_def cast_def fillable_def

lemmas js_simps = truthy_def nullish_def isObject_def to_string_def own_prop_def has_key_def
  castPath_def lodash_get_def lodash_set_def assignValue_def Let_def

lemmas key_simps = object_keys_def is_index_def is_digit_def

lemma base_new: "OgResource_new example_store (HRef 0) JUndefined [] = Inr base_resource"
  by (simp add: OgResource_new_eq get_config_def example_store_def base_resource_def)

lemma parseInt_null: "parseInt JNull = NaN"
  by (simp add: parseInt_def to_string_def is_space_def is_digit_def)

lemma fill_no_truthy:
  assumes "\<And>p. p \<in> set (r_fillable r) \<Longrightarrow> \<not> truthy (lodash_get a p JNull)"
  shows "fill st r a = (Normal, r)"
proof -
  have "fold (\<lambda>path acc.
             (case fst acc of
                Throw e \<Rightarrow> acc
              | Normal \<Rightarrow>
                  (let value = lodash_get a path JNull
                   in if \<not> truthy value then acc else set_res st (snd acc) path value))) xs x = x"
    if "set xs \<subseteq> set (r_fillable r)" for xs x
    using that assms by (induction xs arbitrary: x) (auto simp: Let_def split: completion.splits)
  then show ?thesis by (simp add: fill.simps)
qed

lemma fill_nullish: "nullish a \<Longrightarrow> fill st r a = (Normal, r)"
  by (rule fill_no_truthy) (simp add: lodash_get_def truthy_def)




lemma is_digit_not_space: "is_digit c \<Longrightarrow> \<not> is_space c"
  by (auto simp: is_digit_def is_space_def)

lemma is_digit_not_sign: "is_digit c \<Longrightarrow> c \<noteq> CHR ''-'' \<and> c \<noteq> CHR ''+''"
  by (auto simp: is_digit_def)

lemma parseInt_digits:
  assumes "ds \<noteq> []" "list_all is_digit ds" "rest = [] \<or> \<not> is_digit (hd rest)"
  shows "parseInt (JStr (ds @ rest)) = Fin (of_nat (nat_of_digits 0 ds))"
proof -
  from assms obtain d ds' where ds: "ds = d # ds'" and d: "is_digit d"
    by (cases ds) auto
  have tw: "takeWhile is_digit (ds @ rest) = ds"
    using assms(2,3) by (cases rest) (auto simp: takeWhile_append2 list_all_iff takeWhile_eq_all_conv)
  have dw: "dropWhile is_space (ds @ rest) = ds @ rest"
    using ds d by (simp add: is_digit_not_space)
  show ?thesis
    using tw dw assms(1) ds is_digit_not_sign [OF d]
    by (simp add: parseInt_def to_string_def Let_def)
qed

lemma parseInt_no_digits:
  assumes "s = [] \<or> (\<not> is_digit (hd s) \<and> \<not> is_space (hd s) \<and> hd s \<noteq> CHR ''-'' \<and> hd s \<noteq> CHR ''+'')"
  shows "parseInt (JStr s) = NaN"
  using assms by (cases s) (auto simp: parseInt_def to_string_def Let_def)



lemma frac_digits_zero [simp]: "frac_digits k 0 d = []"
  by (cases k) simp_all

lemma to_string_zero: "to_string (JNum (Fin 0)) = ''0''"
  by (simp add: to_string_def num_to_string_def rat_to_string_def digit_char_def)

lemma parseInt_zero: "parseInt (JNum (Fin 0)) = Fin 0"
  by (simp add: parseInt_def to_string_zero is_space_def is_digit_def digit_val_def)


lemma SCHEMA_cong:
  assumes a: "r_api r = r_api r'" and c: "r_casts r = r_casts r'"
  shows "SCHEMA st r = SCHEMA st r'"
  unfolding SCHEMA.simps [of st r] SCHEMA.simps [of st r'] a c ..

lemma get_res_cong:
  assumes a: "r_api r = r_api r'" and c: "r_casts r = r_casts r'"
    and t: "r_attributes r = r_attributes r'"
  shows "get_res st r p d = get_res st r' p d"
  unfolding get_res_def t SCHEMA_cong [OF a c, of st] ..

lemma toJSON_cong:
  assumes a: "r_api r = r_api r'" and c: "r_casts r = r_casts r'"
    and t: "r_attributes r = r_attributes r'"
  shows "toJSON st r = toJSON st r'"
  unfolding toJSON_def c get_res_cong [OF a c t, of st] ..

lemma sel_set [simp]:
  "r_api (set_response x r) = r_api r" "r_casts (set_response x r) = r_casts r"
  "r_attributes (set_response x r) = r_attributes r" "r_fillable (set_response x r) = r_fillable r"
  "r_status (set_response x r) = r_status r" "r_response (set_response x r) = x"
  "r_api (set_status s r) = r_api r" "r_casts (set_status s r) = r_casts r"
  "r_attributes (set_status s r) = r_attributes r" "r_fillable (set_status s r) = r_fillable r"
  "r_status (set_status s r) = s" "r_response (set_status s r) = r_response r"
  "r_api (set_attributes v r) = r_api r" "r_casts (set_attributes v r) = r_casts r"
  "r_attributes (set_attributes v r) = v" "r_fillable (set_attributes v r) = r_fillable r"
  "r_status (set_attributes v r) = r_status r" "r_response (set_attributes v r) = r_response r"
  "r_api (set_fillable f r) = r_api r" "r_casts (set_fillable f r) = r_casts r"
  "r_attributes (set_fillable f r) = r_attributes r" "r_fillable (set_fillable f r) = f"
  "r_status (set_fillable f r) = r_status r" "r_response (set_fillable f r) = r_response r"
  "r_api (set_casts c r) = r_api r" "r_casts (set_casts c r) = c"
  "r_attributes (set_casts c r) = r_attributes r" "r_fillable (set_casts c r) = r_fillable r"
  "r_status (set_casts c r) = r_status r" "r_response (set_casts c r) = r_response r"
  by (simp_all add: res_simps)

lemma sel_statusReset [simp]:
  "r_api (statusReset r) = r_api r" "r_casts (statusReset r) = r_casts r"
  "r_attributes (statusReset r) = r_attributes r" "r_fillable (statusReset r) = r_fillable r"
  "r_status (statusReset r) = status_idle" "r_response (statusReset r) = r_response r"
  by (simp_all add: statusReset_def status_idle_def)

lemma baseGet_zero_leaf:
  "ks \<noteq> [] \<Longrightarrow> baseGet (JObj Plain [(path, JNum (Fin 0))]) ks \<in> {JNum (Fin 0), JUndefined}"
proof (cases ks)
  case Nil
  assume "ks \<noteq> []" then show ?thesis using Nil by simp
next
  case (Cons k ks')
  show ?thesis
  proof (cases ks')
    case Nil
    then show ?thesis using Cons by (simp add: nullish_def own_prop_def)
  next
    case (Cons k' ks'')
    have "baseGet (own_prop (JObj Plain [(path, JNum (Fin 0))]) k) ks' = JUndefined"
      by (rule baseGet_non_object) (simp_all add: own_prop_def isObject_def Cons)
    then show ?thesis using \<open>ks = k # ks'\<close> by (simp add: nullish_def)
  qed
qed

lemma lodash_get_zero_object:
  "\<not> truthy (lodash_get (JObj Plain [(path, JNum (Fin 0))]) p JNull)"
  using baseGet_zero_leaf [of "castPath p (JObj Plain [(path, JNum (Fin 0))])" path]
  by (auto simp: lodash_get_def Let_def nullish_def truthy_def)

lemma get_config_defined: "h \<noteq> HUndefined \<Longrightarrow> \<exists>cfg. get_config st h = Inr cfg"
  by (cases h) (simp_all add: get_config_def split: option.splits hobj.splits)

lemma lodash_get_default:
  "lodash_get obj p d
     = (if lodash_get obj p JUndefined = JUndefined then d else lodash_get obj p JUndefined)"
  by (simp add: lodash_get_def Let_def)

lemma SCHEMA_no_casts: "r_casts r = [] \<Longrightarrow> SCHEMA st r = Inr (JObj Plain [])"
  by (simp add: SCHEMA.simps key_simps)

lemma noted_reached:
  "set_res example_store (fillable base_resource ''x'') ''x'' (JNum (Fin 5)) = (Normal, noted)"
  by (simp add: set_res.simps noted_def base_resource_def res_simps getCastValue.simps
        get_config_def example_store_def js_simps)

lemma toJSON_no_casts: "r_casts r = [] \<Longrightarrow> toJSON st r = Inr (JObj Plain [])"
  by (simp add: toJSON_def key_simps)

lemma shape_simps [simp]:
  "shape (set_response x r) = shape r" "shape (set_status s r) = shape r"
  "shape (set_attributes v r) = shape r" "shape (statusReset r) = shape r"
  by (simp_all add: shape_def)

lemma set_res_shape: "shape (snd (set_res st r p v)) = shape r"
  by (simp add: set_res.simps split: sum.splits)

lemma fill_fold_shape:
  "shape (snd (fold (\<lambda>path acc.
             (case fst acc of
                Throw e \<Rightarrow> acc
              | Normal \<Rightarrow>
                  (let value = lodash_get a path JNull
                   in if \<not> truthy value then acc else set_res st (snd acc) path value))) xs x))
     = shape (snd x)"
proof (induction xs arbitrary: x)
  case Nil
  then show ?case by simp
next
  case (Cons p ps)
  show ?case
    by (simp add: Cons.IH Let_def set_res_shape split: completion.splits)
qed

lemma fill_shape: "shape (snd (fill st r a)) = shape r"
  using fill_fold_shape [of a st "r_fillable r" "(Normal, r)"] by (simp add: fill.simps)

lemma reset_shape: "shape (snd (reset st r)) = shape r"
  by (simp add: reset_def split: sum.splits)

lemma abort_shape: "shape (snd (abort st r)) = shape r"
  by (simp add: abort_def Let_def reset_shape split: completion.splits sum.splits)

lemma save_shape: "shape (snd (snd (save st r outcome))) = shape r"
  by (simp add: save_def Let_def case_prod_beta fill_shape split: completion.split sum.split)

lemma cast_keeps: "cast_implies_fillable r \<Longrightarrow> cast_implies_fillable (cast r p t)"
  by (auto simp: cast_implies_fillable_def cast_def fillable_def res_simps dom_update)

lemma fillable_keeps: "cast_implies_fillable r \<Longrightarrow> cast_implies_fillable (fillable r p)"
  by (auto simp: cast_implies_fillable_def fillable_def res_simps)

lemma fold_cast_keeps:
  "cast_implies_fillable r \<Longrightarrow> cast_implies_fillable (fold (\<lambda>path r'. cast r' path (g path)) ps r)"
  by (induction ps arbitrary: r) (simp_all add: cast_keeps)

lemma define_keeps:
  assumes "cast_implies_fillable r"
  shows "cast_implies_fillable (snd (define_casts st r cs))"
proof -
  define r1 where "r1 = fold (\<lambda>path r'. cast r' path (case map_of cs path of Some t \<Rightarrow> t | None \<Rightarrow> TName []))
                 (object_keys (map fst cs)) r"
  have "cast_implies_fillable r1"
    unfolding r1_def using assms by (rule fold_cast_keeps)
  moreover have "shape (snd (define_casts st r cs)) = shape r1"
    by (simp add: define_casts_def Let_def r1_def split: sum.split)
  ultimately show ?thesis by (simp add: shape_def cast_implies_fillable_def)
qed

lemma baseGet_empty: "ks \<noteq> [] \<Longrightarrow> baseGet (JObj Plain []) ks = JUndefined"
  by (cases ks; cases "tl ks") (auto simp: own_prop_def nullish_def)

lemma baseGet_baseSet_unrelated:
  "isObject obj \<Longrightarrow> \<not> starts_with ks' ks \<Longrightarrow> \<not> starts_with ks ks'
     \<Longrightarrow> baseGet (baseSet obj ks v) ks' = baseGet obj ks'"
proof (induction obj ks v arbitrary: ks' rule: baseSet.induct)
  case (1 obj v)
  then show ?case by simp
next
  case (2 obj k v)
  then obtain k' rest where ks': "ks' = k' # rest" and "k' \<noteq> k"
    by (cases ks') auto
  then show ?case using 2(1)
    by (simp add: own_prop_assignValue isObject_not_nullish)
next
  case (3 obj k k2 ks v)
  from 3(4) obtain k' rest where ks': "ks' = k' # rest"
    by (cases ks') auto
  define nv where "nv = (if isObject (own_prop obj k) then own_prop obj k else JObj Plain [])"
  have nvo: "isObject nv" by (simp add: nv_def isObject_def)
  show ?case
  proof (cases "k' = k")
    case False
    then show ?thesis using 3(2) ks'
      by (simp add: Let_def own_prop_assignValue isObject_not_nullish)
  next
    case True
    then have a: "\<not> starts_with rest (k2 # ks)" and b: "\<not> starts_with (k2 # ks) rest"
      using 3(3,4) ks' by auto
    have "baseGet (baseSet nv (k2 # ks) v) rest = baseGet nv rest"
      using 3(1) [OF refl, of nv rest] nvo a b by (simp add: nv_def)
    moreover have "baseGet nv rest = baseGet (own_prop obj k) rest"
    proof (cases "isObject (own_prop obj k)")
      case True
      then show ?thesis by (simp add: nv_def)
    next
      case False
      have "rest \<noteq> []" using b by (cases rest) auto
      then show ?thesis using False
        by (simp add: nv_def baseGet_empty baseGet_non_object)
    qed
    ultimately show ?thesis using 3(2) ks' True
      by (simp add: Let_def own_prop_assignValue isObject_not_nullish nv_def)
  qed
qed

lemma top_keys_assignValue:
  "isObject obj \<Longrightarrow> top_keys (assignValue obj k v) = insert k (top_keys obj)"
  by (cases obj) (auto simp: top_keys_def assignValue_def isObject_def dom_update)

lemma top_keys_baseSet:
  "isObject obj \<Longrightarrow> ks \<noteq> [] \<Longrightarrow> top_keys (baseSet obj ks v) = insert (hd ks) (top_keys obj)"
  by (induction obj ks v rule: baseSet.induct) (auto simp: Let_def top_keys_assignValue)

lemma has_key_top_keys: "has_key obj k = (k \<in> top_keys obj)"
  by (cases obj) (auto simp: has_key_def top_keys_def)

lemma castPath_dot_free: "dot_free obj \<Longrightarrow> castPath p obj = split_dots p"
  by (auto simp: castPath_def has_key_top_keys dot_free_def split_dots_no_dot)

lemma dot_free_lodash_set: "dot_free obj \<Longrightarrow> dot_free (lodash_set obj p v)"
  using hd_split_dots_no_dot [of p]
  by (auto simp: dot_free_def lodash_set_def castPath_dot_free top_keys_baseSet)

lemma top_keys_lodash_set:
  "dot_free obj \<Longrightarrow> top_keys (lodash_set obj p v) = insert (hd (split_dots p)) (top_keys obj)"
  by (simp add: dot_free_def lodash_set_def castPath_dot_free top_keys_baseSet)

lemma lodash_get_set_unrelated:
  "dot_free obj \<Longrightarrow> unrelated p q \<Longrightarrow> lodash_get (lodash_set obj q v) p d = lodash_get obj p d"
  using dot_free_lodash_set [of obj q v]
  by (simp add: lodash_get_def lodash_set_def castPath_dot_free unrelated_def
      baseGet_baseSet_unrelated dot_free_def isObject_not_nullish)

lemma set_each_Inl [simp]: "set_each g ps (Inl e) = Inl e"
  by (induction ps) (simp_all add: set_each_def)

lemma set_each_Cons:
  "set_each g (p # ps) (Inr out) =
     (case g p of Inl e \<Rightarrow> Inl e | Inr v \<Rightarrow> set_each g ps (Inr (lodash_set out p v)))"
  using set_each_Inl [of g ps] by (simp add: set_each_def split: sum.split)

lemma set_each_Nil [simp]: "set_each g [] acc = acc"
  by (simp add: set_each_def)

lemma set_each_keys:
  "set_each g ps (Inr acc) = Inr out \<Longrightarrow> dot_free acc
     \<Longrightarrow> dot_free out \<and> top_keys out = top_keys acc \<union> (\<lambda>p. hd (split_dots p)) ` set ps"
proof (induction ps arbitrary: acc)
  case Nil
  then show ?case by simp
next
  case (Cons p ps)
  then obtain v where v: "g p = Inr v" and r: "set_each g ps (Inr (lodash_set acc p v)) = Inr out"
    by (auto simp: set_each_Cons split: sum.splits)
  have "dot_free (lodash_set acc p v)" using Cons.prems(2) by (rule dot_free_lodash_set)
  from Cons.IH [OF r this] show ?case
    using Cons.prems(2) by (auto simp: top_keys_lodash_set)
qed

lemma set_each_returns:
  "set_each g ps (Inr acc) = Inr out \<Longrightarrow> p \<in> set ps \<Longrightarrow> \<exists>v. g p = Inr v"
proof (induction ps arbitrary: acc)
  case Nil
  then show ?case by simp
next
  case (Cons q qs)
  then obtain v where v: "g q = Inr v" and r: "set_each g qs (Inr (lodash_set acc q v)) = Inr out"
    by (auto simp: set_each_Cons split: sum.splits)
  show ?case
  proof (cases "p = q")
    case True
    then show ?thesis using v by simp
  next
    case False
    then show ?thesis using Cons.IH [OF r] Cons.prems(2) by simp
  qed
qed

lemma set_each_unrelated:
  "set_each g ps (Inr acc) = Inr out \<Longrightarrow> dot_free acc \<Longrightarrow> \<forall>q \<in> set ps. unrelated p q
     \<Longrightarrow> lodash_get out p d = lodash_get acc p d"
proof (induction ps arbitrary: acc)
  case Nil
  then show ?case by simp
next
  case (Cons q qs)
  then obtain v where v: "g q = Inr v" and r: "set_each g qs (Inr (lodash_set acc q v)) = Inr out"
    by (auto simp: set_each_Cons split: sum.splits)
  have "lodash_get out p d = lodash_get (lodash_set acc q v) p d"
    using Cons.IH [OF r] Cons.prems(2,3) by (simp add: dot_free_lodash_set)
  then show ?case using Cons.prems(2,3) by (simp add: lodash_get_set_unrelated)
qed

lemma set_each_value:
  "set_each g ps (Inr acc) = Inr out \<Longrightarrow> dot_free acc \<Longrightarrow> p \<in> set ps
     \<Longrightarrow> \<forall>q \<in> set ps. q \<noteq> p \<longrightarrow> unrelated p q \<Longrightarrow> g p = Inr v
     \<Longrightarrow> lodash_get out p d = (if v = JUndefined then d else v)"
proof (induction ps arbitrary: acc)
  case Nil
  then show ?case by simp
next
  case (Cons q qs)
  then obtain w where w: "g q = Inr w" and r: "set_each g qs (Inr (lodash_set acc q w)) = Inr out"
    by (auto simp: set_each_Cons split: sum.splits)
  have df: "dot_free (lodash_set acc q w)" using Cons.prems(2) by (rule dot_free_lodash_set)
  show ?case
  proof (cases "p \<in> set qs")
    case True
    then show ?thesis using Cons.IH [OF r df] Cons.prems(4,5) by simp
  next
    case False
    then have pq: "p = q" using Cons.prems(3) by simp
    have "\<forall>x \<in> set qs. unrelated p x" using Cons.prems(4) False by auto
    then have "lodash_get out p d = lodash_get (lodash_set acc q w) p d"
      using set_each_unrelated [OF r df] by simp
    then show ?thesis using pq w Cons.prems(2,5)
      by (simp add: lodash_get_set dot_free_def)
  qed
qed

lemma set_object_keys [simp]: "set (object_keys ks) = set ks"
  by (auto simp: object_keys_def)

lemma dot_free_empty [simp]: "dot_free (JObj Plain [])"
  by (simp add: dot_free_def isObject_def top_keys_def)

lemma toJSON_set_each:
  "toJSON st r = set_each (\<lambda>p. get_res st r p JUndefined) (object_keys (map fst (r_casts r)))
                   (Inr (JObj Plain []))"
  by (simp add: toJSON_def set_each_def)

lemma assignValue_twice [simp]: "assignValue (assignValue obj k x) k y = assignValue obj k y"
  by (cases obj) (simp_all add: assignValue_def)

lemma baseSet_twice:
  "isObject obj \<Longrightarrow> baseSet (baseSet obj ks v) ks w = baseSet obj ks w"
proof (induction obj ks v rule: baseSet.induct)
  case (1 obj v)
  then show ?case by simp
next
  case (2 obj k v)
  then show ?case by simp
next
  case (3 obj k k2 ks v)
  define nv where "nv = (if isObject (own_prop obj k) then own_prop obj k else JObj Plain [])"
  have nvo: "isObject nv" by (simp add: nv_def isObject_def)
  have "baseSet (baseSet nv (k2 # ks) v) (k2 # ks) w = baseSet nv (k2 # ks) w"
    using 3(1) [OF refl, of nv] nvo by (simp add: nv_def)
  then show ?case using 3(2) nvo
    by (simp add: Let_def own_prop_assignValue nv_def [symmetric])
qed

lemma lodash_set_twice:
  "isObject obj \<Longrightarrow> lodash_set (lodash_set obj p v) p w = lodash_set obj p w"
  using castPath_lodash_set [of obj p v]
  by (simp add: lodash_set_def baseSet_twice)

lemma getCastValue_null_defined:
  assumes "getCastValue st cfg p cs JNull = Inr v"
  shows "v \<noteq> JUndefined"
proof (cases "map_of cs p")
  case None
  then show ?thesis using assms by (auto simp: getCastValue.simps)
next
  case (Some t)
  show ?thesis
  proof (cases t)
    case (TName n)
    then show ?thesis using assms Some
      by (auto simp: getCastValue.simps split: if_splits)
  next
    case (TResource ep cl)
    then show ?thesis using assms Some
      by (auto simp: getCastValue.simps new_instance_TResource)
  next
    case (TCast n)
    then show ?thesis using assms Some
      by (auto simp: getCastValue.simps new_instance.simps)
  qed
qed

lemma SCHEMA_step:
  assumes "isObject schema"
  shows "(case get_config st (r_api r) of
            Inl e \<Rightarrow> Inl e
          | Inr cfg \<Rightarrow>
              (case getCastValue st cfg path (r_casts r) JNull of
                 Inl e \<Rightarrow> Inl e
               | Inr v \<Rightarrow>
                   (let schema1 = lodash_set schema path v;
                        value = lodash_get schema1 path JUndefined
                    in (case value of
                          JObj k ps \<Rightarrow>
                            (case k of
                               ResInst child \<Rightarrow>
                                 (case SCHEMA st child of
                                    Inl e \<Rightarrow> Inl e
                                  | Inr s \<Rightarrow> Inr (lodash_set schema1 path s))
                             | _ \<Rightarrow> Inr schema1)
                        | _ \<Rightarrow> Inr schema1))))
         = (case schema_entry st r path of
              Inl e \<Rightarrow> Inl e
            | Inr w \<Rightarrow> Inr (lodash_set schema path w))"
proof (cases "get_config st (r_api r)")
  case (Inl e)
  then show ?thesis by (simp add: schema_entry_def)
next
  case (Inr cfg)
  show ?thesis
  proof (cases "getCastValue st cfg path (r_casts r) JNull")
    case (Inl e)
    then show ?thesis using Inr by (simp add: schema_entry_def)
  next
    case (Inr v)
    then have "v \<noteq> JUndefined" by (rule getCastValue_null_defined)
    then have g: "lodash_get (lodash_set schema path v) path JUndefined = v"
      using assms by (simp add: lodash_get_set)
    show ?thesis
      using Inr \<open>get_config st (r_api r) = Inr cfg\<close> g assms
      by (simp add: schema_entry_def Let_def lodash_set_twice
          split: jsval.split kind.split sum.split)
  qed
qed

lemma fold_Inl:
  "fold (\<lambda>path acc. case acc of Inl e \<Rightarrow> Inl e | Inr s \<Rightarrow> h path s) ps (Inl e) = Inl e"
  by (induction ps) simp_all

lemma SCHEMA_fold_aux:
  "isObject schema \<Longrightarrow>
   fold (\<lambda>path acc.
             (case acc of
                Inl e \<Rightarrow> Inl e
              | Inr schema \<Rightarrow>
                  (case get_config st (r_api r) of
                     Inl e \<Rightarrow> Inl e
                   | Inr cfg \<Rightarrow>
                       (case getCastValue st cfg path (r_casts r) JNull of
                          Inl e \<Rightarrow> Inl e
                        | Inr v \<Rightarrow>
                            (let schema1 = lodash_set schema path v;
                                 value = lodash_get schema1 path JUndefined
                             in (case value of
                                   JObj k ps \<Rightarrow>
                                     (case k of
                                        ResInst child \<Rightarrow>
                                          (case SCHEMA st child of
                                             Inl e \<Rightarrow> Inl e
                                           | Inr s \<Rightarrow> Inr (lodash_set schema1 path s))
                                      | _ \<Rightarrow> Inr schema1)
                                 | _ \<Rightarrow> Inr schema1))))))
       ps (Inr schema)
   = set_each (schema_entry st r) ps (Inr schema)"
proof (induction ps arbitrary: schema)
  case Nil
  then show ?case by simp
next
  case (Cons p ps)
  show ?case
  proof (cases "schema_entry st r p")
    case (Inl e)
    then show ?thesis
      using SCHEMA_step [OF Cons.prems, where st = st and r = r and path = p]
      by (simp add: set_each_Cons fold_Inl)
  next
    case (Inr w)
    have "isObject (lodash_set schema p w)" using Cons.prems by simp
    from Cons.IH [OF this] show ?thesis
      using SCHEMA_step [OF Cons.prems, where st = st and r = r and path = p] Inr
      by (simp add: set_each_Cons)
  qed
qed

lemma SCHEMA_set_each:
  "SCHEMA st r = set_each (schema_entry st r) (object_keys (map fst (r_casts r)))
                   (Inr (JObj Plain []))"
  using SCHEMA_fold_aux [of "JObj Plain []" st r "object_keys (map fst (r_casts r))"]
  by (simp add: SCHEMA.simps [of st r] isObject_def)

lemma overlapping_schema:
  "SCHEMA example_store (set_attributes a overlapping) = Inr (JObj Plain [(''a'', JStr [])])"
  by (simp add: SCHEMA.simps overlapping_def base_resource_def res_simps getCastValue.simps
      get_config_def example_store_def js_simps key_simps)

lemma overlapping_toJSON:
  "toJSON example_store overlapping = Inr (JObj Plain [(''a'', JStr [])])"
  using overlapping_schema [of "JObj Plain []"]
  by (simp add: toJSON_def get_res_def overlapping_def base_resource_def res_simps
       js_simps key_simps)

lemma customer_schema:
  "SCHEMA example_store customer
     = Inr (JObj Plain [(''address'', JObj Plain [(''city'', JStr [])])])"
proof -
  have c: "SCHEMA example_store address_child = Inr (JObj Plain [(''city'', JStr [])])"
    by (simp add: SCHEMA.simps address_child_def res_simps getCastValue.simps
      get_config_def example_store_def js_simps key_simps)
  have n: "getCastValue example_store (HRef 1) ''address'' (r_casts customer) JNull
             = Inr (JObj (ResInst address_child) [])"
    by (simp add: customer_def AddressResource_def base_resource_def res_simps
      getCastValue.simps new_instance.simps OgResource_new_eq get_config_def get_api_def
      example_store_def address_child_def fill_nullish nullish_def)
  have g: "get_config example_store (r_api customer) = Inr (HRef 1)"
    by (simp add: customer_def base_resource_def res_simps get_config_def example_store_def
        OgApi_new_def)
  have e: "schema_entry example_store customer ''address'' = Inr (JObj Plain [(''city'', JStr [])])"
    using c n g by (simp add: schema_entry_def)
  have k: "object_keys (map fst (r_casts customer)) = [''address'']"
    by (simp add: customer_def base_resource_def res_simps key_simps)
  show ?thesis
    using e k by (simp add: SCHEMA_set_each set_each_Cons js_simps)
qed

lemma parseFloat_null: "parseFloat JNull = NaN"
  by (simp add: parseFloat_def to_string_def is_space_def is_digit_def Let_def)

lemma getCastValue_TName_null:
  assumes "map_of casts key = Some (TName t)"
  shows "getCastValue st cfg key casts JNull = Inr (zero_value t)"
    and "getCastValue st cfg key casts JUndefined = Inr (zero_value t)"
  using assms
  by (simp_all add: getCastValue.simps zero_value_def truthy_def parseInt_null parseFloat_null)

lemma lodash_get_defined: "d \<noteq> JUndefined \<Longrightarrow> lodash_get obj p d \<noteq> JUndefined"
  by (simp add: lodash_get_def Let_def)

lemma get_res_defined: "get_res st r p d = Inr v \<Longrightarrow> v \<noteq> JUndefined"
  by (auto simp: get_res_def Let_def lodash_get_defined split: if_splits sum.splits)

lemma set_each_total:
  "\<forall>p \<in> set ps. \<exists>v. g p = Inr v \<Longrightarrow> \<exists>out. set_each g ps (Inr acc) = Inr out"
  by (induction ps arbitrary: acc) (auto simp: set_each_Cons)

lemma SCHEMA_dot_free: "SCHEMA st r = Inr s \<Longrightarrow> dot_free s"
  using set_each_keys [of "schema_entry st r" "object_keys (map fst (r_casts r))" "JObj Plain []" s]
  by (simp add: SCHEMA_set_each)

lemma schema_entry_TName:
  "get_config st (r_api r) = Inr cfg \<Longrightarrow> map_of (r_casts r) p = Some (TName t)
     \<Longrightarrow> schema_entry st r p = Inr (zero_value t)"
  by (simp add: schema_entry_def getCastValue_TName_null zero_value_def)

lemma zero_value_defined: "zero_value t \<noteq> JUndefined"
  by (simp add: zero_value_def)

lemma primitive_lookup:
  "\<forall>c \<in> set cs. \<exists>n. snd c = TName n \<Longrightarrow> p \<in> fst ` set cs \<Longrightarrow> \<exists>n. map_of cs p = Some (TName n)"
  by (induction cs) auto

lemma SCHEMA_primitive_returns:
  assumes "\<forall>c \<in> set (r_casts r). \<exists>n. snd c = TName n" and "r_api r \<noteq> HUndefined"
  shows "\<exists>s. SCHEMA st r = Inr s"
proof -
  obtain cfg where cfg: "get_config st (r_api r) = Inr cfg"
    using get_config_defined [OF assms(2)] by blast
  have "\<forall>p \<in> set (object_keys (map fst (r_casts r))). \<exists>v. schema_entry st r p = Inr v"
    using primitive_lookup [OF assms(1)] schema_entry_TName [OF cfg] by fastforce
  then show ?thesis
    unfolding SCHEMA_set_each by (rule set_each_total)
qed

lemma toJSON_primitive_returns:
  assumes "\<forall>c \<in> set (r_casts r). \<exists>n. snd c = TName n" and "r_api r \<noteq> HUndefined"
  shows "\<exists>out. toJSON st r = Inr out"
proof -
  obtain s where "SCHEMA st r = Inr s"
    using SCHEMA_primitive_returns [OF assms] by blast
  then have "\<forall>p. \<exists>v. get_res st r p JUndefined = Inr v"
    by (simp add: get_res_def Let_def)
  then show ?thesis
    unfolding toJSON_set_each by (intro set_each_total) blast
qed

lemma person_nick_toJSON:
  "toJSON example_store person_nick
     = Inr (JObj Plain [(''name'', JStr ''Ana''), (''age'', JNum (Fin 7))])"
  by (simp add: toJSON_def get_res_def person_nick_def person_def base_resource_def res_simps
       js_simps key_simps)

lemma person_schema:
  "SCHEMA example_store person = Inr (JObj Plain [(''name'', JStr []), (''age'', JNum (Fin 0))])"
  by (simp add: SCHEMA.simps person_def base_resource_def res_simps getCastValue.simps
      get_config_def example_store_def js_simps key_simps parseInt_null)

lemma fold_cast_frame:
  "r_api (fold (\<lambda>x r'. cast r' (fst x) (snd x)) cs r) = r_api r
   \<and> r_attributes (fold (\<lambda>x r'. cast r' (fst x) (snd x)) cs r) = r_attributes r"
  by (induction cs arbitrary: r) (simp_all add: cast_def fillable_def)

text \<open>
  With two levels of nesting the schema of the outer resource holds the schema of the
  instance built for \<^verbatim>\<open>address\<close>, which holds the schema of the instance built for
  \<^verbatim>\<open>geo\<close>.
\<close>

lemma geo_address_child_schema:
  "SCHEMA example_store geo_address_child
     = Inr (JObj Plain [(''geo'', JObj Plain [(''lat'', JNum (Fin 0))])])"
proof -
  define geo_child where "geo_child =
     cast (Resource (HRef 0) (Wrapper OgResponse_new) [] [] (JObj Plain []) ''id'' status_idle
             ''geos'') ''lat'' (TName ''decimal'')"
  have c: "SCHEMA example_store geo_child = Inr (JObj Plain [(''lat'', JNum (Fin 0))])"
    by (simp add: SCHEMA.simps geo_child_def res_simps getCastValue.simps
      get_config_def example_store_def js_simps key_simps parseFloat_null)
  have n: "getCastValue example_store (HRef 1) ''geo'' (r_casts geo_address_child) JNull
             = Inr (JObj (ResInst geo_child) [])"
    by (simp add: geo_address_child_def GeoResource_def res_simps
      getCastValue.simps new_instance.simps OgResource_new_eq get_config_def get_api_def
      example_store_def geo_child_def fill_nullish nullish_def)
  have g: "get_config example_store (r_api geo_address_child) = Inr (HRef 1)"
    by (simp add: geo_address_child_def res_simps get_config_def example_store_def OgApi_new_def)
  have e: "schema_entry example_store geo_address_child ''geo''
             = Inr (JObj Plain [(''lat'', JNum (Fin 0))])"
    using c n g by (simp add: schema_entry_def)
  have k: "object_keys (map fst (r_casts geo_address_child)) = [''geo'']"
    by (simp add: geo_address_child_def res_simps key_simps)
  show ?thesis using e k by (simp add: SCHEMA_set_each set_each_Cons js_simps)
qed

lemma traveller_schema:
  "SCHEMA example_store traveller
     = Inr (JObj Plain [(''address'', JObj Plain [(''geo'', JObj Plain [(''lat'', JNum (Fin 0))])])])"
proof -
  have n: "getCastValue example_store (HRef 1) ''address'' (r_casts traveller) JNull
             = Inr (JObj (ResInst geo_address_child) [])"
    by (simp add: traveller_def AddressWithGeo_def base_resource_def res_simps
      getCastValue.simps new_instance.simps OgResource_new_eq get_config_def get_api_def
      example_store_def geo_address_child_def fill_nullish nullish_def)
  have g: "get_config example_store (r_api traveller) = Inr (HRef 1)"
    by (simp add: traveller_def base_resource_def res_simps get_config_def example_store_def
        OgApi_new_def)
  have e: "schema_entry example_store traveller ''address''
             = Inr (JObj Plain [(''geo'', JObj Plain [(''lat'', JNum (Fin 0))])])"
    using n g geo_address_child_schema by (simp add: schema_entry_def)
  have k: "object_keys (map fst (r_casts traveller)) = [''address'']"
    by (simp add: traveller_def base_resource_def res_simps key_simps)
  show ?thesis using e k by (simp add: SCHEMA_set_each set_each_Cons js_simps)
qed



lemma secretive_reached:
  "set_res example_store (fillable (cast base_resource ''a'' (TName ''string'')) ''a.secret'')
     ''a.secret'' (JNum (Fin 1)) = (Normal, secretive)"
  by (simp add: set_res.simps secretive_def base_resource_def res_simps getCastValue.simps
        get_config_def example_store_def js_simps)

lemma secretive_toJSON:
  "toJSON example_store secretive
     = Inr (JObj Plain [(''a'', JObj Plain [(''secret'', JNum (Fin 1))])])"
  by (simp add: toJSON_def get_res_def secretive_def base_resource_def res_simps
       js_simps key_simps)

text \<open>
  \<^verbatim>\<open>reset()\<close> replaces the attribute snapshot by the output of \<^verbatim>\<open>toJSON()\<close>, which holds
  the cast paths only: a filled path without a cast is dropped.
\<close>

lemma reset_drops_uncast:
  "r_attributes noted = JObj Plain [(''x'', JNum (Fin 5))]
   \<and> reset example_store noted = (Normal, set_attributes (JObj Plain []) noted)"
  by (simp add: reset_def toJSON_def key_simps noted_def base_resource_def res_simps)

lemma fold_cast_r_api [simp]: "r_api (fold (\<lambda>x r'. cast r' (fst x) (snd x)) cs r) = r_api r"
  by (simp add: fold_cast_frame)

text \<open>
  On a store where a transport and its configuration refer to each other, nothing in the
  casting engine throws for a resource on that transport: the instances it builds are on
  the same transport, and so are the instances they build.
\<close>

lemma set_res_r_api [simp]: "r_api (snd (set_res st r p v)) = r_api r"
  using set_res_attributes_only [of st r p v] by (auto simp: set_attributes_def)



section \<open>The claims of the specification\<close>

text \<open>
  C10. Constructing the base resource never takes anything from the attributes it is
  given: the constructor calls \<^verbatim>\<open>fill(attributes)\<close> while \<^verbatim>\<open>$fillable\<close> is still empty, so
  the result is the same as for an empty attributes object, and on every transport
  reference the construction returns an instance whose attribute store, fillable list and
  casts are empty.
\<close>

theorem constructor_discards_attributes:
  "OgResource_new st api attributes path = OgResource_new st api (JObj Plain []) path
   \<and> (\<exists>r. OgResource_new st (HRef a) attributes path = Inr r
          \<and> r_attributes r = JObj Plain [] \<and> r_fillable r = [] \<and> r_casts r = [])"
proof
  show "OgResource_new st api attributes path = OgResource_new st api (JObj Plain []) path"
    by (simp add: OgResource_new.simps fill.simps Let_def split: sum.splits)
next
  have "\<exists>cfg. get_config st (HRef a) = Inr cfg"
    by (simp add: get_config_def split: option.splits hobj.splits)
  then show "\<exists>r. OgResource_new st (HRef a) attributes path = Inr r
          \<and> r_attributes r = JObj Plain [] \<and> r_fillable r = [] \<and> r_casts r = []"
    by (auto simp add: OgResource_new.simps fill.simps Let_def)
qed







text \<open>
  C1. \<^verbatim>\<open>save()\<close> does not get as far as the request. Its first statement calls
  \<^verbatim>\<open>this.$api.abort()\<close>, a method that \<^verbatim>\<open>OgApi\<close> does not declare: on every resource,
  store and transport outcome, \<^verbatim>\<open>save()\<close> throws the \<^verbatim>\<open>TypeError\<close> of that call, not an
  error that carries the message of the outcome, and leaves the store and the resource,
  its status flags included, as they were. Past that call a failed outcome would go
  unnoticed all the same: on a response that is not ok, \<^verbatim>\<open>OgApi.post\<close> records the
  failure in the transport and returns \<^verbatim>\<open>this.$response.data\<close>, the payload \<^verbatim>\<open>{}\<close>, which
  \<^verbatim>\<open>save()\<close> assigns to \<^verbatim>\<open>this.$response\<close>; \<^verbatim>\<open>failed\<close> read from that payload is
  undefined, which is falsy.
\<close>

theorem save_throws_before_request:
  "save st r outcome
     = (Throw (TypeError (if r_api r = HUndefined then ''Cannot read properties of undefined''
                          else ''this.$api.abort is not a function'')), st, r)
   \<and> (st a = Some (ApiObj x) \<and> api_config x = HRef c \<and> st c = Some (ConfigObj k h)
        \<and> \<not> http_ok resp \<longrightarrow>
        OgApi_post st (HRef a) (Resolved resp)
          = (Inr (JObj Plain []),
             st(a \<mapsto> ApiObj (x\<lparr>api_response :=
                  (api_response x)\<lparr>resp_ok := False, resp_message := http_statusText resp,
                     resp_status := http_status resp, resp_data := JObj Plain []\<rparr>\<rparr>)))
        \<and> response_prop (Payload (JObj Plain [])) ''failed'' = Inr JUndefined
        \<and> \<not> truthy JUndefined)"
proof (intro conjI impI)
  show "save st r outcome
     = (Throw (TypeError (if r_api r = HUndefined then ''Cannot read properties of undefined''
                          else ''this.$api.abort is not a function'')), st, r)"
    by (cases "r_api r") (simp_all add: save_def OgApi_abort_def)
next
  assume h: "st a = Some (ApiObj x) \<and> api_config x = HRef c \<and> st c = Some (ConfigObj k h)
        \<and> \<not> http_ok resp"
  then have "a \<noteq> c" by auto
  then show "OgApi_post st (HRef a) (Resolved resp)
          = (Inr (JObj Plain []),
             st(a \<mapsto> ApiObj (x\<lparr>api_response :=
                  (api_response x)\<lparr>resp_ok := False, resp_message := http_statusText resp,
                     resp_status := http_status resp, resp_data := JObj Plain []\<rparr>\<rparr>)))"
    using h by (simp add: OgApi_post_def OgApi_request_def)
next
  show "response_prop (Payload (JObj Plain [])) ''failed'' = Inr JUndefined"
    by (simp add: response_prop_def nullish_def own_prop_def)
next
  show "\<not> truthy JUndefined" by (simp add: truthy_def)
qed

text \<open>
  C1 at the scenario outcome \<^verbatim>\<open>{ok: false, status: 419, message: 'Expired'}\<close> on a
  constructed resource: \<^verbatim>\<open>save()\<close> throws the \<^verbatim>\<open>TypeError\<close>, and \<^verbatim>\<open>post\<close> on that outcome
  returns \<^verbatim>\<open>{}\<close>.
\<close>

theorem save_throws_before_request_witness:
  "save example_store base_resource expired
     = (Throw (TypeError ''this.$api.abort is not a function''), example_store, base_resource)
   \<and> OgApi_post example_store (HRef 0) expired
       = (Inr (JObj Plain []),
          example_store(0 \<mapsto> ApiObj ((OgApi_new (HRef 1))\<lparr>api_response :=
             \<lparr>resp_ok = False, resp_message = ''Expired'', resp_status = 419,
              resp_data = JObj Plain []\<rparr>\<rparr>)))"
  using save_throws_before_request [where r = base_resource and st = example_store
      and outcome = expired and a = 0 and c = 1 and x = "OgApi_new (HRef 1)" and k = HUndefined
      and h = "HRef 0"
      and resp = "\<lparr>http_ok = False, http_status = 419, http_statusText = ''Expired'',
                        http_json = Inr (JObj Plain [])\<rparr>"]
  by (simp add: base_resource_def example_store_def expired_def OgApi_new_def)

text \<open>
  C4. On a fillable path cast as \<^verbatim>\<open>'integer'\<close>, whatever is stored, \<^verbatim>\<open>fill\<close> with the
  object that maps the path to 0 leaves the resource as it is, whereas \<^verbatim>\<open>set(path, 0)\<close>
  stores 0 at the path (the path then reads 0 and counts as filled).
\<close>

theorem fill_skips_zero_set_stores_zero:
  assumes "path \<in> set (r_fillable r)" and "map_of (r_casts r) path = Some (TName ''integer'')"
    and "isObject (r_attributes r)" and "r_api r \<noteq> HUndefined"
  shows "fill st r (JObj Plain [(path, JNum (Fin 0))]) = (Normal, r)
         \<and> (\<exists>r'. set_res st r path (JNum (Fin 0)) = (Normal, r')
                \<and> lodash_get (r_attributes r') path JUndefined = JNum (Fin 0)
                \<and> filled r' path)"
proof
  show "fill st r (JObj Plain [(path, JNum (Fin 0))]) = (Normal, r)"
    by (rule fill_no_truthy) (rule lodash_get_zero_object)
next
  obtain cfg where cfg: "get_config st (r_api r) = Inr cfg"
    using get_config_defined [OF assms(4)] by blast
  have v: "getCastValue st cfg path (r_casts r) (JNum (Fin 0)) = Inr (JNum (Fin 0))"
    using assms(2) by (simp add: getCastValue.simps parseInt_zero truthy_def)
  have "set_res st r path (JNum (Fin 0))
          = (Normal, set_attributes (lodash_set (r_attributes r) path (JNum (Fin 0))) r)"
    using assms(1) cfg v by (simp add: set_res.simps)
  moreover have "lodash_get (lodash_set (r_attributes r) path (JNum (Fin 0))) path d = JNum (Fin 0)" for d
    using assms(3) by (simp add: lodash_get_set)
  ultimately show "\<exists>r'. set_res st r path (JNum (Fin 0)) = (Normal, r')
                \<and> lodash_get (r_attributes r') path JUndefined = JNum (Fin 0)
                \<and> filled r' path"
    by (simp add: filled_def)
qed

text \<open>C4 on a resource that holds 5 at the integer path \<^verbatim>\<open>a\<close>.\<close>

theorem fill_skips_zero_set_stores_zero_witness:
  "fill example_store counter (JObj Plain [(''a'', JNum (Fin 0))]) = (Normal, counter)
   \<and> set_res example_store counter ''a'' (JNum (Fin 0))
       = (Normal, set_attributes (JObj Plain [(''a'', JNum (Fin 0))]) counter)
   \<and> r_attributes counter = JObj Plain [(''a'', JNum (Fin 5))]"
  using fill_skips_zero_set_stores_zero [of "''a''" counter example_store]
  by (simp add: counter_def base_resource_def res_simps isObject_def set_res.simps
      getCastValue.simps get_config_def example_store_def parseInt_zero js_simps)


text \<open>
  C9. \<^verbatim>\<open>filled(path)\<close> is true exactly when the stored value is neither null nor absent.
  On a stored 0 or \<open>false\<close> it is true, whereas \<^verbatim>\<open>get(path, default)\<close> takes such a value
  for missing and answers from the schema (the default when the schema has nothing at the
  path).
\<close>

theorem filled_is_null_identity:
  "(filled r path \<longleftrightarrow> stored r path \<noteq> JUndefined \<and> stored r path \<noteq> JNull)
   \<and> (stored r path = JNum (Fin 0) \<or> stored r path = JBool False \<longrightarrow>
        filled r path
        \<and> get_res st r path d
            = (case SCHEMA st r of
                 Inl e \<Rightarrow> Inl e
               | Inr schema \<Rightarrow> Inr (lodash_get schema path (if d = JUndefined then JNull else d))))"
proof (intro conjI impI)
  show "filled r path \<longleftrightarrow> stored r path \<noteq> JUndefined \<and> stored r path \<noteq> JNull"
    using lodash_get_default [of "r_attributes r" path JNull]
    by (auto simp: filled_def stored_def)
next
  assume s: "stored r path = JNum (Fin 0) \<or> stored r path = JBool False"
  then show "filled r path"
    using lodash_get_default [of "r_attributes r" path JNull]
    by (auto simp: filled_def stored_def)
next
  assume s: "stored r path = JNum (Fin 0) \<or> stored r path = JBool False"
  define d' where "d' = (if d = JUndefined then JNull else d)"
  have "lodash_get (r_attributes r) path d' = stored r path"
    using s lodash_get_default [of "r_attributes r" path d'] by (auto simp: stored_def)
  then have "\<not> truthy (lodash_get (r_attributes r) path d')"
    using s by (auto simp: truthy_def)
  then show "get_res st r path d
            = (case SCHEMA st r of
                 Inl e \<Rightarrow> Inl e
               | Inr schema \<Rightarrow> Inr (lodash_get schema path (if d = JUndefined then JNull else d)))"
    by (simp add: get_res_def Let_def d'_def)
qed


text \<open>
  C9 after \<^verbatim>\<open>set('x', 0)\<close> on a fillable path without a cast: the path is filled, and
  \<^verbatim>\<open>get('x')\<close> reads null; on the fresh resource the path is not filled.
\<close>

theorem filled_is_null_identity_witness:
  "set_res example_store (fillable base_resource ''x'') ''x'' (JNum (Fin 0)) = (Normal, zero_noted)
   \<and> filled zero_noted ''x''
   \<and> get_res example_store zero_noted ''x'' JUndefined = Inr JNull
   \<and> \<not> filled base_resource ''x''"
proof -
  have s: "stored zero_noted ''x'' = JNum (Fin 0)"
    by (simp add: stored_def zero_noted_def js_simps)
  have c: "SCHEMA example_store zero_noted = Inr (JObj Plain [])"
    by (rule SCHEMA_no_casts) (simp add: zero_noted_def base_resource_def fillable_def)
  have n: "stored base_resource ''x'' = JUndefined"
    by (simp add: stored_def base_resource_def js_simps)
  show ?thesis
    using filled_is_null_identity [of zero_noted "''x''" example_store JUndefined] s c n
      filled_is_null_identity [of base_resource "''x''" example_store JUndefined]
    by (simp add: set_res.simps zero_noted_def base_resource_def res_simps getCastValue.simps
        get_config_def example_store_def js_simps)
qed



text \<open>
  C8. In every state reachable from a constructed resource by \<^verbatim>\<open>define\<close>, \<^verbatim>\<open>cast\<close>,
  \<^verbatim>\<open>fillable\<close>, \<^verbatim>\<open>fill\<close>, \<^verbatim>\<open>set\<close>, \<^verbatim>\<open>save\<close>, \<^verbatim>\<open>abort\<close> and \<^verbatim>\<open>reset\<close>, whether an
  operation returned or threw, every path of the casts is a fillable path.
\<close>

theorem cast_implies_fillable_reachable:
  "reachable st r \<Longrightarrow> cast_implies_fillable r"
proof (induction rule: reachable.induct)
  case (constructed st api attributes path r)
  then show ?case
    by (cases "get_config st api") (auto simp: OgResource_new_eq cast_implies_fillable_def)
next
  case (after_cast st r p t)
  then show ?case by (simp add: cast_keeps)
next
  case (after_fillable st r p)
  then show ?case by (simp add: fillable_keeps)
next
  case (after_define st r cs c r')
  then show ?case using define_keeps [of r st cs] by simp
next
  case (after_fill st r a c r')
  then show ?case using fill_shape [of st r a] by (simp add: shape_def cast_implies_fillable_def)
next
  case (after_set st r p v c r')
  then show ?case using set_res_shape [of st r p v] by (simp add: shape_def cast_implies_fillable_def)
next
  case (after_save st r outcome c st' r')
  then show ?case using save_shape [of st r outcome] by (simp add: shape_def cast_implies_fillable_def)
next
  case (after_abort st r c r')
  then show ?case using abort_shape [of st r] by (simp add: shape_def cast_implies_fillable_def)
next
  case (after_reset st r c r')
  then show ?case using reset_shape [of st r] by (simp add: shape_def cast_implies_fillable_def)
qed


text \<open>
  C8 on two reachable states: the scenario resource, whose cast paths are its fillable
  paths, and a resource with a fillable path that has no cast (the converse fails).
\<close>

theorem cast_implies_fillable_reachable_witness:
  "reachable example_store person \<and> cast_implies_fillable person
   \<and> r_casts person = [(''name'', TName ''string''), (''age'', TName ''integer'')]
   \<and> r_fillable person = [''name'', ''age'']
   \<and> reachable example_store noted \<and> r_casts noted = [] \<and> r_fillable noted = [''x'']"
proof -
  have b: "reachable example_store base_resource"
    using base_new by (rule constructed)
  then have r: "reachable example_store person"
    unfolding person_def by (intro after_cast)
  have "reachable example_store (fillable base_resource ''x'')"
    using b by (rule after_fillable)
  then have n: "reachable example_store noted"
    using noted_reached by (rule after_set)
  show ?thesis
    using r n cast_implies_fillable_reachable [OF r] cast_implies_fillable_reachable [OF n]
    by (simp add: person_def noted_def base_resource_def res_simps)
qed

text \<open>
  C6, the claim as stated fails: with the casts \<^verbatim>\<open>a.b\<close> and \<^verbatim>\<open>a\<close>, declared in this
  order, \<^verbatim>\<open>toJSON()\<close> is \<^verbatim>\<open>{a: ''}\<close>. The cast path \<^verbatim>\<open>a.b\<close> does not appear in it: the
  write at \<^verbatim>\<open>a\<close> has replaced the object that held \<^verbatim>\<open>b\<close>.
\<close>

theorem toJSON_overwritten_path_counterexample:
  "toJSON example_store overlapping = Inr (JObj Plain [(''a'', JStr [])])
   \<and> map_of (r_casts overlapping) ''a.b'' = Some (TName ''string'')
   \<and> lodash_get (JObj Plain [(''a'', JStr [])]) ''a.b'' JUndefined = JUndefined
   \<and> top_keys (JObj Plain [(''a'', JStr [])]) \<noteq> fst ` set (r_casts overlapping)"
  using overlapping_toJSON
  by (simp add: overlapping_def base_resource_def res_simps js_simps top_keys_def)


text \<open>
  C6, amended. When \<^verbatim>\<open>toJSON()\<close> returns, the top-level keys of its output are exactly
  the first segments of the cast paths, whatever is fillable or filled: when no cast path
  has a dot, the top-level keys of the output are exactly the cast paths. Every cast path
  that is unrelated to the other cast paths appears in the output, with the value that
  \<^verbatim>\<open>get(path)\<close> reads. \<^verbatim>\<open>toJSON()\<close> returns whenever every cast is a string descriptor and
  the resource holds a transport. Below the top level the output is not limited to the
  cast paths: the value at a cast path is whatever \<^verbatim>\<open>get\<close> reads there, and after
  \<^verbatim>\<open>cast('a', 'string')\<close>, \<^verbatim>\<open>fillable('a.secret')\<close> and \<^verbatim>\<open>set('a.secret', 1)\<close> the output
  is \<^verbatim>\<open>{a: {secret: 1}}\<close>. A cast path that is a prefix or an extension of another one
  can be overwritten by it: with the casts \<^verbatim>\<open>a.b\<close> and \<^verbatim>\<open>a\<close> the output is \<^verbatim>\<open>{a: ''}\<close>.
\<close>

theorem toJSON_cast_paths:
  "(toJSON st r = Inr out \<longrightarrow>
      top_keys out = (\<lambda>p. hd (split_dots p)) ` fst ` set (r_casts r)
      \<and> ((\<forall>p \<in> fst ` set (r_casts r). CHR ''.'' \<notin> set p) \<longrightarrow>
            top_keys out = fst ` set (r_casts r))
      \<and> (p \<in> fst ` set (r_casts r)
           \<and> (\<forall>q \<in> fst ` set (r_casts r). q \<noteq> p \<longrightarrow> unrelated p q) \<longrightarrow>
           (\<exists>v. get_res st r p JUndefined = Inr v \<and> v \<noteq> JUndefined
                \<and> lodash_get out p JUndefined = v)))
   \<and> ((\<forall>c \<in> set (r_casts r). \<exists>n. snd c = TName n) \<and> r_api r \<noteq> HUndefined \<longrightarrow>
        (\<exists>out. toJSON st r = Inr out))
   \<and> set_res example_store (fillable (cast base_resource ''a'' (TName ''string'')) ''a.secret'')
        ''a.secret'' (JNum (Fin 1)) = (Normal, secretive)
   \<and> toJSON example_store secretive
        = Inr (JObj Plain [(''a'', JObj Plain [(''secret'', JNum (Fin 1))])])
   \<and> toJSON example_store overlapping = Inr (JObj Plain [(''a'', JStr [])])"
proof (intro conjI impI)
  assume j: "toJSON st r = Inr out"
  let ?g = "\<lambda>p. get_res st r p JUndefined"
  let ?ks = "object_keys (map fst (r_casts r))"
  have e: "set_each ?g ?ks (Inr (JObj Plain [])) = Inr out"
    using j by (simp add: toJSON_set_each)
  show k: "top_keys out = (\<lambda>p. hd (split_dots p)) ` fst ` set (r_casts r)"
    using set_each_keys [OF e] by (simp add: top_keys_def)
  {
    assume "\<forall>p \<in> fst ` set (r_casts r). CHR ''.'' \<notin> set p"
    then have "(\<lambda>p. hd (split_dots p)) ` fst ` set (r_casts r) = fst ` set (r_casts r)"
      by (force simp: split_dots_no_dot)
    then show "top_keys out = fst ` set (r_casts r)" using k by simp
  }
  {
    assume a: "p \<in> fst ` set (r_casts r)
           \<and> (\<forall>q \<in> fst ` set (r_casts r). q \<noteq> p \<longrightarrow> unrelated p q)"
    then have m: "p \<in> set ?ks" by simp
    obtain v where v: "?g p = Inr v" using set_each_returns [OF e m] by blast
    have d: "v \<noteq> JUndefined" using v by (rule get_res_defined)
    have "lodash_get out p JUndefined = (if v = JUndefined then JUndefined else v)"
      using a by (intro set_each_value [OF e _ m _ v]) simp_all
    then show "\<exists>v. get_res st r p JUndefined = Inr v \<and> v \<noteq> JUndefined
                \<and> lodash_get out p JUndefined = v"
      using v d by simp
  }
next
  assume "(\<forall>c \<in> set (r_casts r). \<exists>n. snd c = TName n) \<and> r_api r \<noteq> HUndefined"
  then show "\<exists>out. toJSON st r = Inr out"
    using toJSON_primitive_returns by blast
next
  show "set_res example_store (fillable (cast base_resource ''a'' (TName ''string'')) ''a.secret'')
        ''a.secret'' (JNum (Fin 1)) = (Normal, secretive)"
    by (rule secretive_reached)
next
  show "toJSON example_store secretive
        = Inr (JObj Plain [(''a'', JObj Plain [(''secret'', JNum (Fin 1))])])"
    by (rule secretive_toJSON)
next
  show "toJSON example_store overlapping = Inr (JObj Plain [(''a'', JStr [])])"
    by (rule overlapping_toJSON)
qed


text \<open>
  The amended C6 on the scenario resource with a filled, fillable, uncast path \<^verbatim>\<open>nick\<close>:
  the output has the keys \<^verbatim>\<open>name\<close> and \<^verbatim>\<open>age\<close> only.
\<close>

theorem toJSON_cast_paths_witness:
  "toJSON example_store person_nick
     = Inr (JObj Plain [(''name'', JStr ''Ana''), (''age'', JNum (Fin 7))])
   \<and> top_keys (JObj Plain [(''name'', JStr ''Ana''), (''age'', JNum (Fin 7))]) = {''name'', ''age''}
   \<and> fst ` set (r_casts person_nick) = {''name'', ''age''}
   \<and> ''nick'' \<in> set (r_fillable person_nick)
   \<and> stored person_nick ''nick'' = JStr ''Annie''
   \<and> get_res example_store person_nick ''age'' JUndefined = Inr (JNum (Fin 7))"
proof -
  let ?out = "JObj Plain [(''name'', JStr ''Ana''), (''age'', JNum (Fin 7))]"
  have c: "r_casts person_nick = [(''name'', TName ''string''), (''age'', TName ''integer'')]"
    by (simp add: person_nick_def person_def base_resource_def res_simps)
  have u: "unrelated ''age'' ''name''"
    by (simp add: unrelated_def)
  have a: "r_api person_nick \<noteq> HUndefined"
    by (simp add: person_nick_def person_def base_resource_def res_simps)
  show ?thesis
    using toJSON_cast_paths [of example_store person_nick ?out "''age''"] person_nick_toJSON c u a
    by (auto simp: top_keys_def stored_def person_nick_def person_def base_resource_def
        res_simps js_simps)
qed


text \<open>
  C7, the claim as stated fails: with the casts \<^verbatim>\<open>a.b\<close> and \<^verbatim>\<open>a\<close>, both
  \<^verbatim>\<open>'string'\<close>, the schema is \<^verbatim>\<open>{a: ''}\<close>; the cast of \<open>null\<close> at \<^verbatim>\<open>a.b\<close> is \<^verbatim>\<open>''\<close>, but
  the schema holds nothing at \<^verbatim>\<open>a.b\<close>.
\<close>

theorem schema_overwritten_path_counterexample:
  "SCHEMA example_store overlapping = Inr (JObj Plain [(''a'', JStr [])])
   \<and> map_of (r_casts overlapping) ''a.b'' = Some (TName ''string'')
   \<and> getCastValue example_store (HRef 1) ''a.b'' (r_casts overlapping) JNull = Inr (JStr [])
   \<and> lodash_get (JObj Plain [(''a'', JStr [])]) ''a.b'' JUndefined \<noteq> JStr []"
  using overlapping_schema [of "JObj Plain []"]
  by (simp add: overlapping_def base_resource_def res_simps js_simps getCastValue.simps)


text \<open>
  C7, amended. For every cast that is a string descriptor, the cast of \<open>null\<close> or of an
  absent input is the zero value of the declared type (\<open>false\<close>, the empty string, 0, 0).
  When \<^verbatim>\<open>SCHEMA\<close> returns, it holds at every cast path that is unrelated to the other cast
  paths this zero value, and for a nested-resource cast the schema of the instance
  constructed from \<open>null\<close>. \<^verbatim>\<open>SCHEMA\<close> returns whenever every cast is a string descriptor
  and the resource holds a transport. In the scenario, the schema is
  \<^verbatim>\<open>{address: {city: ''}}\<close>. Nothing is said here of the resources on which \<^verbatim>\<open>SCHEMA\<close>
  throws, as it does when the construction of a nested instance throws.
\<close>

theorem schema_zero_values:
  "(map_of casts key = Some (TName t) \<longrightarrow>
      getCastValue st cfg key casts JNull = Inr (zero_value t)
      \<and> getCastValue st cfg key casts JUndefined = Inr (zero_value t))
   \<and> zero_value ''boolean'' = JBool False \<and> zero_value ''string'' = JStr []
   \<and> zero_value ''integer'' = JNum (Fin 0) \<and> zero_value ''decimal'' = JNum (Fin 0)
   \<and> (SCHEMA st r = Inr s \<and> (\<forall>q \<in> fst ` set (r_casts r). q \<noteq> p \<longrightarrow> unrelated p q) \<longrightarrow>
        (map_of (r_casts r) p = Some (TName t) \<longrightarrow> lodash_get s p JUndefined = zero_value t)
        \<and> (map_of (r_casts r) p = Some (TResource ep cs) \<longrightarrow>
             (\<exists>cfg child. get_config st (r_api r) = Inr cfg
                 \<and> new_instance st (TResource ep cs) cfg JNull = Inr (JObj (ResInst child) [])
                 \<and> SCHEMA st child = Inr (lodash_get s p JUndefined))))
   \<and> ((\<forall>c \<in> set (r_casts r). \<exists>n. snd c = TName n) \<and> r_api r \<noteq> HUndefined \<longrightarrow>
        (\<exists>s. SCHEMA st r = Inr s))
   \<and> SCHEMA example_store customer
        = Inr (JObj Plain [(''address'', JObj Plain [(''city'', JStr [])])])"
proof (intro conjI impI)
  assume "map_of casts key = Some (TName t)"
  then show "getCastValue st cfg key casts JNull = Inr (zero_value t)"
    and "getCastValue st cfg key casts JUndefined = Inr (zero_value t)"
    by (rule getCastValue_TName_null)+
next
  show "zero_value ''boolean'' = JBool False" "zero_value ''string'' = JStr []"
    "zero_value ''integer'' = JNum (Fin 0)" "zero_value ''decimal'' = JNum (Fin 0)"
    by (simp_all add: zero_value_def)
next
  assume h: "SCHEMA st r = Inr s \<and> (\<forall>q \<in> fst ` set (r_casts r). q \<noteq> p \<longrightarrow> unrelated p q)"
  let ?ks = "object_keys (map fst (r_casts r))"
  have e: "set_each (schema_entry st r) ?ks (Inr (JObj Plain [])) = Inr s"
    using h by (simp add: SCHEMA_set_each)
  have val: "lodash_get s p JUndefined = w"
    if m: "p \<in> set ?ks" and w: "schema_entry st r p = Inr w" and d: "w \<noteq> JUndefined" for w
  proof -
    have "lodash_get s p JUndefined = (if w = JUndefined then JUndefined else w)"
      using h by (intro set_each_value [OF e _ m _ w]) simp_all
    then show ?thesis using d by simp
  qed
  {
    assume t: "map_of (r_casts r) p = Some (TName t)"
    then have m: "p \<in> set ?ks" by (force dest: map_of_SomeD)
    obtain w where w: "schema_entry st r p = Inr w" using set_each_returns [OF e m] by blast
    then obtain cfg where "get_config st (r_api r) = Inr cfg"
      by (auto simp: schema_entry_def split: sum.splits)
    then have "schema_entry st r p = Inr (zero_value t)"
      using t by (rule schema_entry_TName)
    then show "lodash_get s p JUndefined = zero_value t"
      using val [OF m] zero_value_defined by blast
  }
  {
    assume t: "map_of (r_casts r) p = Some (TResource ep cs)"
    then have m: "p \<in> set ?ks" by (force dest: map_of_SomeD)
    obtain w where w: "schema_entry st r p = Inr w" using set_each_returns [OF e m] by blast
    then obtain cfg v where cfg: "get_config st (r_api r) = Inr cfg"
      and v: "getCastValue st cfg p (r_casts r) JNull = Inr v"
      by (auto simp: schema_entry_def split: sum.splits)
    have n: "new_instance st (TResource ep cs) cfg JNull = Inr v"
      using v t by (simp add: getCastValue.simps)
    then obtain child where c: "v = JObj (ResInst child) []"
      unfolding new_instance_TResource by blast
    have sc: "SCHEMA st child = Inr w"
      using w cfg v c by (simp add: schema_entry_def)
    then have "dot_free w" by (rule SCHEMA_dot_free)
    then have "w \<noteq> JUndefined" by (auto simp: dot_free_def isObject_def)
    then have "lodash_get s p JUndefined = w" using val [OF m w] by simp
    then show "\<exists>cfg child. get_config st (r_api r) = Inr cfg
                 \<and> new_instance st (TResource ep cs) cfg JNull = Inr (JObj (ResInst child) [])
                 \<and> SCHEMA st child = Inr (lodash_get s p JUndefined)"
      using cfg n c sc by auto
  }
next
  assume "(\<forall>c \<in> set (r_casts r). \<exists>n. snd c = TName n) \<and> r_api r \<noteq> HUndefined"
  then show "\<exists>s. SCHEMA st r = Inr s"
    using SCHEMA_primitive_returns by blast
next
  show "SCHEMA example_store customer
        = Inr (JObj Plain [(''address'', JObj Plain [(''city'', JStr [])])])"
    by (rule customer_schema)
qed


text \<open>The amended C7 on the two scenario resources.\<close>

theorem schema_zero_values_witness:
  "SCHEMA example_store person = Inr (JObj Plain [(''name'', JStr []), (''age'', JNum (Fin 0))])
   \<and> map_of (r_casts person) ''age'' = Some (TName ''integer'')
   \<and> lodash_get (JObj Plain [(''name'', JStr []), (''age'', JNum (Fin 0))]) ''age'' JUndefined
       = JNum (Fin 0)
   \<and> getCastValue example_store (HRef 1) ''age'' (r_casts person) JNull = Inr (JNum (Fin 0))
   \<and> map_of (r_casts customer) ''address'' = Some AddressResource
   \<and> new_instance example_store AddressResource (HRef 1) JNull
       = Inr (JObj (ResInst address_child) [])
   \<and> SCHEMA example_store address_child = Inr (JObj Plain [(''city'', JStr [])])"
proof -
  let ?s = "JObj Plain [(''name'', JStr []), (''age'', JNum (Fin 0))]"
  let ?c = "JObj Plain [(''address'', JObj Plain [(''city'', JStr [])])]"
  have c: "r_casts person = [(''name'', TName ''string''), (''age'', TName ''integer'')]"
    by (simp add: person_def base_resource_def res_simps)
  have u: "unrelated ''age'' ''name''"
    by (simp add: unrelated_def)
  have cc: "r_casts customer = [(''address'', AddressResource)]"
    by (simp add: customer_def base_resource_def res_simps)
  have g: "get_config example_store (r_api customer) = Inr (HRef 1)"
    by (simp add: customer_def base_resource_def res_simps get_config_def example_store_def
        OgApi_new_def)
  have n: "new_instance example_store AddressResource (HRef 1) JNull
             = Inr (JObj (ResInst address_child) [])"
    by (simp add: AddressResource_def new_instance.simps OgResource_new_eq get_config_def
        get_api_def example_store_def address_child_def fill_nullish nullish_def)
  have z: "zero_value ''integer'' = JNum (Fin 0)" by (simp add: zero_value_def)
  have l: "lodash_get ?c ''address'' JUndefined = JObj Plain [(''city'', JStr [])]"
    by (simp add: js_simps)
  show ?thesis
    using schema_zero_values [of "r_casts person" "''age''" "''integer''" example_store "HRef 1"
        person ?s "''age''" "''addresses''" "[]"]
      schema_zero_values [of "r_casts person" "''age''" "''integer''" example_store "HRef 1"
        customer ?c "''address''" "''addresses''" "[(''city'', TName ''string'')]"]
      person_schema customer_schema c u cc g n z l
    by (auto simp: AddressResource_def)
qed

end
